theory Spec2Isabelle
  imports Complex_Main "HOL-Library.Multiset"
begin

section \<open>Failures\<close>

text \<open>
  Every way in which a function of the repository can end without a result is a value.
  \<open>NeedLowData\<close> and \<open>NeedHighData\<close> are the two \<open>BlackBoxError\<close> exceptions thrown
  by \<open>ratingDecay\<close>. The remaining constructors stand for undefined behaviour of the C++
  source: reading through an iterator that is at the end of its vector, indexing a
  fixed-size array outside its bounds, and reading a local variable or array cell that
  was never assigned.
\<close>

datatype failure =
    NeedLowData
  | NeedHighData
  | DerefEnd
  | OutOfBounds
  | Uninitialised
  | NotFinite

definition bind :: "failure + 'a \<Rightarrow> ('a \<Rightarrow> failure + 'b) \<Rightarrow> failure + 'b" where
  "bind m f = (case m of Inl e \<Rightarrow> Inl e | Inr x \<Rightarrow> f x)"

text \<open>A \<open>for\<close> loop over the listed index values that stops at the first failure.\<close>

fun forM :: "'i list \<Rightarrow> ('i \<Rightarrow> 's \<Rightarrow> failure + 's) \<Rightarrow> 's \<Rightarrow> failure + 's" where
  "forM [] body s = Inr s"
| "forM (i # is) body s = (case body i s of Inl e \<Rightarrow> Inl e | Inr s' \<Rightarrow> forM is body s')"

section \<open>Schedules (FindOptSchedule.h)\<close>

record Pair =
  repairID :: int
  repairYear :: int

type_synonym RepairSchedule = "Pair list"

section \<open>mergeFourSched (FindOptSchedule.cpp)\<close>

text \<open>
  The iterator \<open>itStart[i]\<close> is modelled by the part of vector \<open>i\<close> that it has not
  passed yet, so \<open>itStart[i] == itEnd[i]\<close> is \<open>its i = []\<close> and \<open>*itStart[i]\<close> is the
  head of \<open>its i\<close>; dereferencing at the end is \<open>DerefEnd\<close>.

  \<open>pick\<close> is the inner \<open>for (int i = 0; i < 4; i++)\<close> loop with its two locals
  \<open>min\<close> and \<open>min_i\<close>. The test \<open>(!ends[i]) && (itStart[i]->repairYear <= min)\<close>
  evaluates left to right, so an ended iterator is never read.
\<close>

fun pick :: "(nat \<Rightarrow> bool) \<Rightarrow> (nat \<Rightarrow> RepairSchedule) \<Rightarrow> nat list \<Rightarrow> int \<times> nat
              \<Rightarrow> failure + (int \<times> nat)" where
  "pick ends its [] (mn, min_i) = Inr (mn, min_i)"
| "pick ends its (i # is) (mn, min_i) =
     (if ends i then pick ends its is (mn, min_i)
      else (case its i of
              [] \<Rightarrow> Inl DerefEnd
            | p # rest \<Rightarrow>
                if repairYear p \<le> mn then pick ends its is (repairYear p, i)
                else pick ends its is (mn, min_i)))"

definition remaining :: "(nat \<Rightarrow> RepairSchedule) \<Rightarrow> nat" where
  "remaining its = length (its 0) + length (its 1) + length (its 2) + length (its 3)"

lemma pick_index:
  "pick ends its is (mn, mi) = Inr (mn', mi') \<Longrightarrow>
     mi' = mi \<or> (mi' \<in> set is \<and> its mi' \<noteq> [])"
proof (induction "is" arbitrary: mn mi)
  case Nil
  then show ?case by simp
next
  case (Cons i "is")
  show ?case
  proof (cases "ends i")
    case True
    with Cons show ?thesis by auto
  next
    case False
    with Cons.prems obtain p rest where hd: "its i = p # rest"
      by (cases "its i") auto
    show ?thesis
    proof (cases "repairYear p \<le> mn")
      case True
      with Cons.prems False hd have "pick ends its is (repairYear p, i) = Inr (mn', mi')"
        by simp
      from Cons.IH [OF this] hd show ?thesis by auto
    next
      case le: False
      with Cons.prems False hd have "pick ends its is (mn, mi) = Inr (mn', mi')"
        by simp
      from Cons.IH [OF this] show ?thesis by auto
    qed
  qed
qed

text \<open>
  The \<open>while\<close> loop. One round picks \<open>min_i\<close>, leaves the loop when none was picked
  (\<open>min_i == 5\<close>), appends \<open>*itStart[min_i]\<close> to \<open>result\<close>, advances the iterator and
  sets \<open>ends[min_i]\<close> when it reached the end.
\<close>

function mergeLoop :: "(nat \<Rightarrow> bool) \<Rightarrow> (nat \<Rightarrow> RepairSchedule) \<Rightarrow> RepairSchedule
                        \<Rightarrow> failure + RepairSchedule" where
  "mergeLoop ends its result =
     (if ends 0 \<and> ends 1 \<and> ends 2 \<and> ends 3 then Inr result
      else (case pick ends its [0, 1, 2, 3] (9999, 5) of
              Inl e \<Rightarrow> Inl e
            | Inr (mn, min_i) \<Rightarrow>
                if min_i = 5 then Inr result
                else (case its min_i of
                        [] \<Rightarrow> Inl DerefEnd
                      | p # rest \<Rightarrow>
                          mergeLoop (if rest = [] then ends(min_i := True) else ends)
                                    (its(min_i := rest)) (result @ [p]))))"
  by pat_completeness auto
termination
  apply (relation "measure (\<lambda>(ends, its, result). remaining its)")
   apply simp
  subgoal for ends its result x2 mn min_i p rest
    using pick_index [of ends its "[0, 1, 2, 3]" 9999 5 mn min_i]
    by (auto simp: remaining_def simp del: pick.simps)
  done

declare mergeLoop.simps [simp del]

definition mergeFourSched :: "RepairSchedule \<Rightarrow> RepairSchedule \<Rightarrow> RepairSchedule \<Rightarrow> RepairSchedule
                               \<Rightarrow> failure + RepairSchedule" where
  "mergeFourSched vec1 vec2 vec3 vec4 =
     mergeLoop (\<lambda>j. False)
               (\<lambda>i. if i = 0 then vec1 else if i = 1 then vec2 else if i = 2 then vec3 else vec4)
               []"

text \<open>
  Vocabulary for the properties of the merge: the four iterator slots, the year at the
  head of a slot, and the states in which every slot is sorted, holds years up to 9999
  only, and is flagged as ended exactly when it is used up.
\<close>

definition slots :: "nat set" where
  "slots = {0, 1, 2, 3}"

definition headYear :: "(nat \<Rightarrow> RepairSchedule) \<Rightarrow> nat \<Rightarrow> int" where
  "headYear its i = repairYear (hd (its i))"

definition mergeReady :: "(nat \<Rightarrow> bool) \<Rightarrow> (nat \<Rightarrow> RepairSchedule) \<Rightarrow> bool" where
  "mergeReady ends its =
     (\<forall>i\<in>slots. ends i = (its i = []) \<and> sorted (map repairYear (its i))
                    \<and> (\<forall>p\<in>set (its i). repairYear p \<le> 9999))"

section \<open>Inputs (Input.h)\<close>

text \<open>
  \<open>RepairEnv\<close> is one row of the repair catalog; its field \<open>rID\<close> is the struct's
  \<open>repairID\<close> (the name \<open>repairID\<close> is taken by \<open>Pair\<close>); the parameter
  \<open>repairID\<close> of \<open>calEnvImpact\<close> is written \<open>repID\<close>.
\<close>

record RepairEnv =
  rID :: int
  LB :: int
  UB :: int
  improvement :: int
  duration :: int
  repairMean :: real
  trafficMean :: real

type_synonym RepairEnvMat = "RepairEnv list"

record BridgeInfo =
  bridgeWidth :: real
  bridgeLength :: real
  bridgeID :: int
  bridgeAADT :: real
  bridgeAADTT :: real
  trafficGrowthRate :: real
  discountRate :: real
  startRating :: int
  startYear :: int

record ImpCoef =
  condition :: int
  coef :: real

type_synonym ImproveMat = "ImpCoef list"

text \<open>\<open>CostMap\<close> is \<open>map<int,float>\<close>; \<open>costs[k]\<close> on a missing key yields \<open>0\<close>.\<close>

type_synonym CostMap = "int \<rightharpoonup> real"

section \<open>calEnvImpact (EnvImpact.cpp)\<close>

text \<open>
  The eleven membership sets. \<open>categoryThree\<close> is built from the first 14 elements of
  a 15-element array, so repair 45 is in no set.
\<close>

definition categoryOne :: "int set" where "categoryOne = {1, 7, 15, 16}"
definition categoryTwo :: "int set" where "categoryTwo = {2}"
definition categoryThree :: "int set" where
  "categoryThree = {3, 22, 23, 24, 25, 26, 27, 28, 29, 30, 31, 32, 33, 34}"
definition categoryFour :: "int set" where "categoryFour = {4, 10}"
definition categoryFive :: "int set" where "categoryFive = {5}"
definition categorySix :: "int set" where "categorySix = {6, 37, 38, 39, 40}"
definition categorySeven :: "int set" where
  "categorySeven = {8, 9, 41, 42, 43, 44, 46, 47, 48, 49, 50}"
definition categoryEight :: "int set" where "categoryEight = {11, 51}"
definition categoryNine :: "int set" where "categoryNine = {12, 13, 14}"
definition categoryTen :: "int set" where "categoryTen = {17, 18, 19, 20, 21, 35, 36}"
definition categoryEleven :: "int set" where "categoryEleven = {0}"

text \<open>
  The first loop of \<open>calEnvImpact\<close>: \<open>impCoeff\<close> is the coefficient of the last row of
  \<open>impMat\<close> whose condition is \<open>rating\<close>, and stays unassigned (\<open>None\<close>) without one.
\<close>

definition impCoeffOf :: "ImproveMat \<Rightarrow> int \<Rightarrow> real option" where
  "impCoeffOf impMat rating =
     foldl (\<lambda>acc e. if condition e = rating then Some (coef e) else acc) None impMat"

text \<open>
  The catalog scan shared by the scanning categories: the first row with this
  \<open>repairID\<close> and \<open>LB <= rating <= UB\<close>; the loop leaves at that row.
\<close>

definition matchRow :: "RepairEnvMat \<Rightarrow> int \<Rightarrow> int \<Rightarrow> RepairEnv option" where
  "matchRow repairs repID rating =
     find (\<lambda>r. rID r = repID \<and> rating \<le> UB r \<and> rating \<ge> LB r) repairs"

text \<open>\<open>pow(1+growthRate, year)\<close> with an \<open>int\<close> exponent.\<close>

definition growth :: "real \<Rightarrow> int \<Rightarrow> failure + real" where
  "growth growthRate year =
     (if 1 + growthRate = 0 \<and> year < 0 then Inl NotFinite
      else Inr (power_int (1 + growthRate) year))"

definition useCoeff :: "real option \<Rightarrow> failure + real" where
  "useCoeff impCoeff = (case impCoeff of None \<Rightarrow> Inl Uninitialised | Some ic \<Rightarrow> Inr ic)"

text \<open>
  \<open>CO2\<close> starts as \<open>0.0f\<close>. Each scanning category runs the same loop over the
  catalog and assigns \<open>CO2\<close> in the first matching row only, so without a matching row
  the initial \<open>0\<close> is returned. \<open>formula\<close> is the assignment of the category.
\<close>

definition scanCatalog :: "RepairEnvMat \<Rightarrow> int \<Rightarrow> int \<Rightarrow> (RepairEnv \<Rightarrow> failure + real)
                            \<Rightarrow> failure + real" where
  "scanCatalog repairs repID rating formula =
     (case matchRow repairs repID rating of None \<Rightarrow> Inr 0 | Some r \<Rightarrow> formula r)"

text \<open>
  The chain of category tests, in the order of the source. Category seven assigns \<open>0\<close>
  without a scan; a \<open>repairID\<close> in no category assigns nothing. A formula that reads
  \<open>impCoeff\<close> while it is unassigned is \<open>Uninitialised\<close>. \<open>days\<close> is the \<open>int\<close>
  field \<open>duration\<close>, converted in the product.
\<close>

definition calEnvImpact :: "BridgeInfo \<Rightarrow> int \<Rightarrow> int \<Rightarrow> int \<Rightarrow> RepairEnvMat \<Rightarrow> ImproveMat
                             \<Rightarrow> failure + real" where
  "calEnvImpact bridge year repID rating repairs impMat =
     (let deckLength = bridgeLength bridge;
          deckWidth = bridgeWidth bridge;
          AADT = bridgeAADT bridge;
          growthRate = trafficGrowthRate bridge;
          impCoeff = impCoeffOf impMat rating;
          scan = scanCatalog repairs repID rating
      in if repID \<in> categoryOne then
           scan (\<lambda>r. bind (useCoeff impCoeff) (\<lambda>ic. bind (growth growthRate year) (\<lambda>g.
             Inr (repairMean r * deckLength * deckWidth * ic
                  + trafficMean r * AADT * real_of_int (duration r) * g))))
         else if repID \<in> categoryTwo then
           scan (\<lambda>r. bind (useCoeff impCoeff) (\<lambda>ic. bind (growth growthRate year) (\<lambda>g.
             Inr (repairMean r * 10 * deckWidth * ic
                  + trafficMean r * AADT * real_of_int (duration r) * g))))
         else if repID \<in> categoryThree then
           scan (\<lambda>r. bind (growth growthRate year) (\<lambda>g.
             Inr (repairMean r * deckWidth * trafficMean r * AADT * real_of_int (duration r) * g)))
         else if repID \<in> categoryFour then
           scan (\<lambda>r. bind (useCoeff impCoeff) (\<lambda>ic. Inr (repairMean r * deckLength * 2 * ic)))
         else if repID \<in> categoryFive then
           scan (\<lambda>r. Inr (repairMean r * deckLength * deckWidth))
         else if repID \<in> categorySix then
           scan (\<lambda>r. bind (useCoeff impCoeff) (\<lambda>ic.
             Inr (repairMean r * deckLength * deckWidth * ic)))
         else if repID \<in> categorySeven then
           Inr 0
         else if repID \<in> categoryEight then
           scan (\<lambda>r. Inr (repairMean r))
         else if repID \<in> categoryNine then
           scan (\<lambda>r. bind (useCoeff impCoeff) (\<lambda>ic. bind (growth growthRate year) (\<lambda>g.
             Inr (repairMean r * deckLength * 2 * ic * trafficMean r * AADT
                  * real_of_int (duration r) * g))))
         else if repID \<in> categoryTen then
           scan (\<lambda>r. bind (growth growthRate year) (\<lambda>g.
             Inr (repairMean r * deckLength * deckWidth
                  + trafficMean r * AADT * real_of_int (duration r) * g)))
         else if repID \<in> categoryEleven then
           scan (\<lambda>r. bind (useCoeff impCoeff) (\<lambda>ic. bind (growth growthRate year) (\<lambda>g.
             Inr (repairMean r * deckLength * deckWidth * ic * trafficMean r * AADT
                  * real_of_int (duration r) * g))))
         else Inr 0)"

section \<open>ratingDecay (Input.cpp)\<close>

text \<open>
  \<open>ratingDecay\<close> starts with \<open>coeff = polyFit(3, ratings)\<close> and uses \<open>ratings\<close>
  nowhere else; the model takes the three coefficients \<open>(a, b, c)\<close> of the fitted
  curve \<open>rating = a t\<^sup>2 + b t + c\<close> as its argument.

  The expression tested by the validation is the rating at the vertex of the parabola.
\<close>

definition vertexRating :: "real \<Rightarrow> real \<Rightarrow> real \<Rightarrow> real" where
  "vertexRating a b c = (- (b ^ 2) + 4 * a * c) / (4 * a)"

text \<open>
  \<open>timePoints[i]\<close>: with \<open>c = coeff[2] - i\<close>, the root
  \<open>(-1*b - sqrt(pow(b, 2) - 4*a*c)) / (2*a)\<close>.
\<close>

definition timePoint :: "real \<Rightarrow> real \<Rightarrow> real \<Rightarrow> int \<Rightarrow> failure + real" where
  "timePoint a b c2 i =
     (let c = c2 - real_of_int i
      in if b ^ 2 - 4 * a * c < 0 then Inl NotFinite
         else Inr ((-1 * b - sqrt (b ^ 2 - 4 * a * c)) / (2 * a)))"

text \<open>
  The array \<open>float timePoints[10]\<close> and the caller's \<open>int ratingsDecay[10][10]\<close>
  (allocated in blackBox.cpp) are functions of their indices; a write outside the
  bounds is \<open>OutOfBounds\<close>.
\<close>

definition setTimePoint :: "real \<Rightarrow> real \<Rightarrow> real \<Rightarrow> int \<Rightarrow> (int \<Rightarrow> real) \<Rightarrow> failure + (int \<Rightarrow> real)" where
  "setTimePoint a b c2 i timePoints =
     (if 0 \<le> i \<and> i \<le> 9
      then bind (timePoint a b c2 i) (\<lambda>v. Inr (timePoints(i := v)))
      else Inl OutOfBounds)"

definition setDecay :: "(int \<Rightarrow> real) \<Rightarrow> int \<Rightarrow> int \<Rightarrow> (int \<Rightarrow> int \<Rightarrow> int)
                         \<Rightarrow> failure + (int \<Rightarrow> int \<Rightarrow> int)" where
  "setDecay timePoints i j ratingsDecay =
     (if 0 \<le> i \<and> i \<le> 9 \<and> 0 \<le> j \<and> j \<le> 9
      then Inr (ratingsDecay(i := (ratingsDecay i)(j := \<lfloor>timePoints j - timePoints i\<rfloor>)))
      else Inl OutOfBounds)"

text \<open>
  The validation throws the two \<open>BlackBoxError\<close>s. With \<open>a = 0\<close> the tested
  expression divides by zero, which is marked \<open>NotFinite\<close>. The loops run \<open>i\<close> and
  \<open>j\<close> downwards: \<open>for (i = 9; i > limit-1; i--)\<close> and \<open>for (j = i; j > limit-1; j--)\<close>.
  The function returns the contents of \<open>ratingsDecay\<close> after the call.
\<close>

definition ratingDecay :: "(int \<Rightarrow> int \<Rightarrow> int) \<Rightarrow> real \<times> real \<times> real \<Rightarrow> int
                            \<Rightarrow> failure + (int \<Rightarrow> int \<Rightarrow> int)" where
  "ratingDecay ratingsDecay coeff limit =
     (case coeff of (a, b, c) \<Rightarrow>
        if a = 0 then Inl NotFinite
        else if a > 0 \<and> vertexRating a b c > real_of_int limit then Inl NeedLowData
        else if \<not> a > 0 \<and> vertexRating a b c < 9 then Inl NeedHighData
        else bind (forM (rev [limit..9]) (setTimePoint a b c) (\<lambda>i. 0))
               (\<lambda>timePoints.
                  forM (rev [limit..9])
                    (\<lambda>i. forM (rev [limit..i]) (\<lambda>j. setDecay timePoints i j))
                    ratingsDecay))"

text \<open>
  Vocabulary for the properties of \<open>ratingDecay\<close>: the root stored in \<open>timePoints[i]\<close>
  as a function of the rating, the fits that pass the validation with a leading
  coefficient other than zero, a caller's table holding zeros, and the entry of a
  returned table.
\<close>

definition decayRoot :: "real \<Rightarrow> real \<Rightarrow> real \<Rightarrow> int \<Rightarrow> real" where
  "decayRoot a b c i = (- b - sqrt (b ^ 2 - 4 * a * (c - real_of_int i))) / (2 * a)"

definition fitValid :: "real \<Rightarrow> real \<Rightarrow> real \<Rightarrow> int \<Rightarrow> bool" where
  "fitValid a b c limit =
     ((0 < a \<and> vertexRating a b c \<le> real_of_int limit) \<or> (a < 0 \<and> 9 \<le> vertexRating a b c))"

definition blankTable :: "int \<Rightarrow> int \<Rightarrow> int" where
  "blankTable = (\<lambda>i j. 0)"

definition decayEntry :: "failure + (int \<Rightarrow> int \<Rightarrow> int) \<Rightarrow> int \<Rightarrow> int \<Rightarrow> int option" where
  "decayEntry r i j = (case r of Inl e \<Rightarrow> None | Inr t \<Rightarrow> Some (t i j))"

section \<open>The scheduler (FindOptSchedule.cpp)\<close>

text \<open>
  \<open>findOptEnvSchedule\<close> and \<open>findOptCostSchedule\<close> are the same text except in three
  places: the first value of the loop variable \<open>i\<close> (\<open>rating+1\<close> against \<open>rating\<close>),
  the value of a repair (\<open>calEnvImpact(...)\<close> against
  \<open>calEnvImpact(...)*factor/pow(r+1, yearDecay)\<close>), and the comparison of the
  acceptance test (\<open><=\<close> against \<open><\<close>). The model is one text with the variant as
  a parameter, and one definition for each of the three places.
\<close>

datatype variant = EnvVariant | CostVariant

text \<open>
  The \<open>float\<close> objective values: a real number or
  \<open>numeric_limits<float>::infinity()\<close>.
\<close>

datatype cost = Fin real | Infinity

fun cadd :: "cost \<Rightarrow> cost \<Rightarrow> cost" where
  "cadd (Fin a) (Fin b) = Fin (a + b)"
| "cadd c d = Infinity"

fun cless :: "cost \<Rightarrow> cost \<Rightarrow> bool" where
  "cless (Fin a) (Fin b) = (a < b)"
| "cless (Fin a) Infinity = True"
| "cless Infinity d = False"

definition cle :: "cost \<Rightarrow> cost \<Rightarrow> bool" where
  "cle c d = (cless c d \<or> c = d)"

text \<open>
  The four local arrays \<open>M[101][9]\<close>, \<open>preX[101][9]\<close>, \<open>preY[101][9]\<close> and
  \<open>preRepair[101][9]\<close>. \<open>M\<close> is set to \<open>0\<close> everywhere before use; the other three
  are not initialised, so their cells are \<open>None\<close> until assigned.
\<close>

record tables =
  M :: "int \<Rightarrow> int \<Rightarrow> cost"
  preX :: "int \<Rightarrow> int \<Rightarrow> int option"
  preY :: "int \<Rightarrow> int \<Rightarrow> int option"
  preRepair :: "int \<Rightarrow> int \<Rightarrow> int option"

definition initTables :: tables where
  "initTables = \<lparr>M = (\<lambda>i j. Fin 0), preX = (\<lambda>i j. None), preY = (\<lambda>i j. None),
                  preRepair = (\<lambda>i j. None)\<rparr>"

definition inb :: "int \<Rightarrow> int \<Rightarrow> bool" where
  "inb x y = (0 \<le> x \<and> x \<le> 100 \<and> 0 \<le> y \<and> y \<le> 8)"

definition upd2 :: "(int \<Rightarrow> int \<Rightarrow> 'a) \<Rightarrow> int \<Rightarrow> int \<Rightarrow> 'a \<Rightarrow> (int \<Rightarrow> int \<Rightarrow> 'a)" where
  "upd2 f x y v = f(x := (f x)(y := v))"

definition readM :: "tables \<Rightarrow> int \<Rightarrow> int \<Rightarrow> failure + cost" where
  "readM T x y = (if inb x y then Inr (M T x y) else Inl OutOfBounds)"

definition writeM :: "int \<Rightarrow> int \<Rightarrow> cost \<Rightarrow> tables \<Rightarrow> failure + tables" where
  "writeM x y v T = (if inb x y then Inr (T\<lparr>M := upd2 (M T) x y v\<rparr>) else Inl OutOfBounds)"

definition readPre :: "(int \<Rightarrow> int \<Rightarrow> int option) \<Rightarrow> int \<Rightarrow> int \<Rightarrow> failure + int" where
  "readPre p x y =
     (if inb x y then (case p x y of None \<Rightarrow> Inl Uninitialised | Some v \<Rightarrow> Inr v)
      else Inl OutOfBounds)"

text \<open>
  \<open>preX[x][y] = px; preY[x][y] = py; preRepair[x][y] = pr;\<close>
\<close>

definition writePre :: "int \<Rightarrow> int \<Rightarrow> int \<Rightarrow> int \<Rightarrow> int \<Rightarrow> tables \<Rightarrow> failure + tables" where
  "writePre x y px py pr T =
     (if inb x y
      then Inr (T\<lparr>preX := upd2 (preX T) x y (Some px), preY := upd2 (preY T) x y (Some py),
                   preRepair := upd2 (preRepair T) x y (Some pr)\<rparr>)
      else Inl OutOfBounds)"

text \<open>A read of the caller's \<open>int ratingsDecay[10][10]\<close>.\<close>

definition decayAt :: "(int \<Rightarrow> int \<Rightarrow> int) \<Rightarrow> int \<Rightarrow> int \<Rightarrow> failure + int" where
  "decayAt ratingsDecay i j =
     (if 0 \<le> i \<and> i \<le> 9 \<and> 0 \<le> j \<and> j \<le> 9 then Inr (ratingsDecay i j) else Inl OutOfBounds)"

subsection \<open>Boundary conditions\<close>

text \<open>The body of \<open>for(int i = 8; i> 0; i--)\<close>.\<close>

definition boundaryCell :: "int \<Rightarrow> int \<Rightarrow> int \<Rightarrow> tables \<Rightarrow> failure + tables" where
  "boundaryCell rating year i T =
     bind (writeM year i (if i \<ge> rating then Fin 0 else Infinity) T)
          (writePre year i (-1) 0 0)"

text \<open>
  \<open>for(rating = startRating-1; rating > limit-1; rating--)\<close> around
  \<open>for (year = ratingsDecay[startRating][rating+1]; year <= ratingsDecay[startRating][rating]; year++)\<close>.
\<close>

definition boundary :: "BridgeInfo \<Rightarrow> (int \<Rightarrow> int \<Rightarrow> int) \<Rightarrow> int \<Rightarrow> tables \<Rightarrow> failure + tables" where
  "boundary bridge ratingsDecay limit =
     forM (rev [limit..startRating bridge - 1])
       (\<lambda>rating T.
          bind (decayAt ratingsDecay (startRating bridge) (rating + 1)) (\<lambda>first.
          bind (decayAt ratingsDecay (startRating bridge) rating) (\<lambda>last.
            forM [first..last] (\<lambda>year. forM (rev [1..8]) (boundaryCell rating year)) T)))"

subsection \<open>The fill\<close>

text \<open>
  First place where the variants differ: the value \<open>tempRepairCost\<close> of catalog row
  \<open>r\<close> used at rating \<open>j\<close> in year \<open>yearDecay\<close>. \<open>costs[k]\<close> is \<open>0\<close> for a
  missing key; \<open>r\<close> in the source is \<open>bridge.discountRate\<close>.
\<close>

fun valuate :: "variant \<Rightarrow> BridgeInfo \<Rightarrow> CostMap \<Rightarrow> RepairEnvMat \<Rightarrow> ImproveMat \<Rightarrow> int
                 \<Rightarrow> RepairEnv \<Rightarrow> int \<Rightarrow> failure + real" where
  "valuate EnvVariant bridge costs repairs impMat yearDecay r j =
     calEnvImpact bridge yearDecay (rID r) j repairs impMat"
| "valuate CostVariant bridge costs repairs impMat yearDecay r j =
     (let factor = (case costs (rID r) of None \<Rightarrow> 0 | Some f \<Rightarrow> f)
      in bind (calEnvImpact bridge yearDecay (rID r) j repairs impMat) (\<lambda>v.
           if power_int (discountRate bridge + 1) yearDecay = 0 then Inl NotFinite
           else Inr (v * factor / power_int (discountRate bridge + 1) yearDecay)))"

text \<open>
  The body of the loop over the catalog (\<open>k\<close>), for row \<open>r = repairs[k]\<close>. The locals
  \<open>repairCost\<close> and \<open>repairId\<close> are declared in the body of the \<open>i\<close> loop, outside the
  \<open>j\<close> loop, so they carry over from one \<open>j\<close> to the next.
\<close>

definition tryRepair :: "(RepairEnv \<Rightarrow> int \<Rightarrow> failure + real) \<Rightarrow> int \<Rightarrow> int \<Rightarrow> RepairEnv
                          \<Rightarrow> cost \<times> int \<Rightarrow> failure + (cost \<times> int)" where
  "tryRepair val i j r = (\<lambda>(repairCost, repairId).
     if i = 7 \<and> improvement r = 7 \<and> (j \<le> UB r \<and> j \<ge> LB r) then
       bind (val r j) (\<lambda>tempRepairCost.
         if cless (Fin tempRepairCost) repairCost then Inr (Fin tempRepairCost, rID r)
         else Inr (repairCost, repairId))
     else if improvement r = i - j \<and> (j \<le> UB r \<and> j \<ge> LB r) then
       bind (val r j) (\<lambda>tempRepairCost.
         if cless (Fin tempRepairCost) repairCost then Inr (Fin tempRepairCost, rID r)
         else Inr (repairCost, repairId))
     else Inr (repairCost, repairId))"

text \<open>
  Second place where the variants differ: the comparison of the tentative value with
  the current minimum.
\<close>

fun improves :: "variant \<Rightarrow> cost \<Rightarrow> cost \<Rightarrow> bool" where
  "improves EnvVariant tempCost mn = cle tempCost mn"
| "improves CostVariant tempCost mn = cless tempCost mn"

text \<open>
  The acceptance test
  \<open>if (tempCost <= min && tempCost!=0 && preX[yearDecay][j]!=yearDecay)\<close> and its body.
  The conjunction evaluates left to right, so \<open>preX[yearDecay][j]\<close> is read only when
  the first two tests hold.
\<close>

definition accept :: "variant \<Rightarrow> int \<Rightarrow> int \<Rightarrow> int \<Rightarrow> int \<Rightarrow> int \<Rightarrow> cost \<Rightarrow> cost \<times> tables
                       \<Rightarrow> failure + (cost \<times> tables)" where
  "accept v year rating yearDecay j repairId tempCost = (\<lambda>(mn, T).
     if improves v tempCost mn \<and> tempCost \<noteq> Fin 0 then
       bind (readPre (preX T) yearDecay j) (\<lambda>px.
         if px \<noteq> yearDecay then
           bind (writePre year rating yearDecay j repairId T) (\<lambda>T'. Inr (tempCost, T'))
         else Inr (mn, T))
     else Inr (mn, T))"

text \<open>
  The body of \<open>for (int j=limit;j<i;j++)\<close>: the loop over the catalog, then
  \<open>tempCost=M[yearDecay][j]+ repairCost\<close>, then the acceptance test.
\<close>

definition candidate :: "variant \<Rightarrow> (RepairEnv \<Rightarrow> int \<Rightarrow> failure + real) \<Rightarrow> RepairEnvMat
                          \<Rightarrow> int \<Rightarrow> int \<Rightarrow> int \<Rightarrow> int \<Rightarrow> int
                          \<Rightarrow> (cost \<times> int) \<times> (cost \<times> tables)
                          \<Rightarrow> failure + ((cost \<times> int) \<times> (cost \<times> tables))" where
  "candidate v val repairs year rating i yearDecay j = (\<lambda>(best, (mn, T)).
     bind (forM repairs (tryRepair val i j) best) (\<lambda>(repairCost, repairId).
     bind (readM T yearDecay j) (\<lambda>m.
     bind (accept v year rating yearDecay j repairId (cadd m repairCost) (mn, T)) (\<lambda>mnT.
       Inr ((repairCost, repairId), mnT)))))"

text \<open>
  Third place where the variants differ: the first value of \<open>i\<close>.
\<close>

fun firstPrior :: "variant \<Rightarrow> int \<Rightarrow> int" where
  "firstPrior EnvVariant rating = rating + 1"
| "firstPrior CostVariant rating = rating"

text \<open>
  The loop over \<open>i\<close>, with its \<open>break\<close> when \<open>yearDecay < 0\<close>. Each round starts with
  \<open>repairCost = infinity\<close> and \<open>repairId = 0\<close>.
\<close>

fun priorLoop :: "variant \<Rightarrow> (int \<Rightarrow> RepairEnv \<Rightarrow> int \<Rightarrow> failure + real) \<Rightarrow> RepairEnvMat
                   \<Rightarrow> (int \<Rightarrow> int \<Rightarrow> int) \<Rightarrow> int \<Rightarrow> int \<Rightarrow> int \<Rightarrow> int list
                   \<Rightarrow> cost \<times> tables \<Rightarrow> failure + (cost \<times> tables)" where
  "priorLoop v val repairs ratingsDecay limit year rating [] mnT = Inr mnT"
| "priorLoop v val repairs ratingsDecay limit year rating (i # is) mnT =
     bind (decayAt ratingsDecay i rating) (\<lambda>dec.
       if year - dec < 0 then Inr mnT
       else bind (forM [limit..i - 1]
                    (candidate v (val (year - dec)) repairs year rating i (year - dec))
                    ((Infinity, 0), mnT))
              (\<lambda>(best, mnT'). priorLoop v val repairs ratingsDecay limit year rating is mnT'))"

text \<open>
  The body of \<open>for(int rating=limit; rating<9; rating++ )\<close>: \<open>continue\<close> on a cell of
  the boundary, otherwise the loop over \<open>i\<close> from \<open>min = infinity\<close> and
  \<open>M[year][rating]=min\<close>.
\<close>

definition fillCell :: "variant \<Rightarrow> BridgeInfo \<Rightarrow> (int \<Rightarrow> int \<Rightarrow> int) \<Rightarrow> RepairEnvMat \<Rightarrow> CostMap
                         \<Rightarrow> ImproveMat \<Rightarrow> int \<Rightarrow> int \<Rightarrow> int \<Rightarrow> tables \<Rightarrow> failure + tables" where
  "fillCell v bridge ratingsDecay repairs costs impMat limit year rating T =
     bind (if rating \<le> startRating bridge
           then bind (decayAt ratingsDecay (startRating bridge) rating) (\<lambda>dec. Inr (dec \<ge> year))
           else Inr False)
       (\<lambda>onBoundary.
          if onBoundary then Inr T
          else bind (priorLoop v (valuate v bridge costs repairs impMat) repairs ratingsDecay
                       limit year rating [firstPrior v rating..8] (Infinity, T))
                 (\<lambda>(mn, T'). writeM year rating mn T'))"

definition fill :: "variant \<Rightarrow> BridgeInfo \<Rightarrow> (int \<Rightarrow> int \<Rightarrow> int) \<Rightarrow> RepairEnvMat \<Rightarrow> CostMap
                     \<Rightarrow> ImproveMat \<Rightarrow> int \<Rightarrow> tables \<Rightarrow> failure + tables" where
  "fill v bridge ratingsDecay repairs costs impMat limit =
     forM [0..100]
       (\<lambda>year. forM [limit..8] (fillCell v bridge ratingsDecay repairs costs impMat limit year))"

subsection \<open>The walks along the predecessors\<close>

definition obind :: "(failure + 'a) option \<Rightarrow> ('a \<Rightarrow> (failure + 'b) option) \<Rightarrow> (failure + 'b) option" where
  "obind m f = (case m of None \<Rightarrow> None | Some (Inl e) \<Rightarrow> Some (Inl e) | Some (Inr x) \<Rightarrow> f x)"

text \<open>
  The \<open>while (preX[x][y]>= 0)\<close> loop that writes the chain of one final condition to
  the file. It may run forever, which is the value \<open>None\<close>. \<open>rows\<close> collects the
  written lines: \<open>preX[x][y]\<close>, \<open>preRepair[x][y]\<close>, \<open>preY[x][y]\<close>.
\<close>

partial_function (option) walkFile :: "tables \<Rightarrow> int \<Rightarrow> int \<Rightarrow> (int \<times> int \<times> int) list
                                        \<Rightarrow> (failure + (int \<times> int \<times> int) list) option" where
  "walkFile T x y rows =
     (case readPre (preX T) x y of
        Inl e \<Rightarrow> Some (Inl e)
      | Inr px \<Rightarrow>
          if px \<ge> 0 then
            (case readPre (preRepair T) x y of
               Inl e \<Rightarrow> Some (Inl e)
             | Inr pr \<Rightarrow>
                 (case readPre (preY T) x y of
                    Inl e \<Rightarrow> Some (Inl e)
                  | Inr py \<Rightarrow> walkFile T px py (rows @ [(px, pr, py)])))
          else Some (Inr rows))"

declare walkFile.simps [code]

text \<open>
  The loop \<open>for (int i = limit; i < 8; i++)\<close> over the final conditions; its state is
  \<open>minTotalCost\<close>, \<open>optFinalCondition\<close> (not initialised) and the contents of the
  file "Optimal Maintenance Schedule": for each final condition its number, its
  \<open>M[100][i]\<close> and the lines of its chain.
\<close>

type_synonym fileBlock = "int \<times> cost \<times> (int \<times> int \<times> int) list"

fun finalScan :: "tables \<Rightarrow> int list \<Rightarrow> cost \<times> int option \<times> fileBlock list
                   \<Rightarrow> (failure + (cost \<times> int option \<times> fileBlock list)) option" where
  "finalScan T [] st = Some (Inr st)"
| "finalScan T (i # is) (minTotalCost, optFinalCondition, file) =
     (case readM T 100 i of
        Inl e \<Rightarrow> Some (Inl e)
      | Inr m \<Rightarrow>
          obind (walkFile T 100 i []) (\<lambda>rows.
            finalScan T is (if cless m minTotalCost then (m, Some i, file @ [(i, m, rows)])
                            else (minTotalCost, optFinalCondition, file @ [(i, m, rows)]))))"

text \<open>
  The loop \<open>while (preX[x][y]>-1 && preRepair[x][y]>0)\<close> that collects the schedule in
  \<open>temp\<close>, latest repair first.
\<close>

partial_function (option) walkSchedule :: "tables \<Rightarrow> int \<Rightarrow> int \<Rightarrow> int \<Rightarrow> RepairSchedule
                                            \<Rightarrow> (failure + RepairSchedule) option" where
  "walkSchedule T startYr x y temp =
     (case readPre (preX T) x y of
        Inl e \<Rightarrow> Some (Inl e)
      | Inr px \<Rightarrow>
          if px > -1 then
            (case readPre (preRepair T) x y of
               Inl e \<Rightarrow> Some (Inl e)
             | Inr pr \<Rightarrow>
                 if pr > 0 then
                   (case readPre (preY T) x y of
                      Inl e \<Rightarrow> Some (Inl e)
                    | Inr py \<Rightarrow>
                        walkSchedule T startYr px py
                          (temp @ [\<lparr>repairID = pr, repairYear = px + startYr\<rparr>]))
                 else Some (Inr temp))
          else Some (Inr temp))"

declare walkSchedule.simps [code]

subsection \<open>The two schedulers\<close>

text \<open>
  The end of the function: the walk from \<open>(100, optFinalCondition)\<close>, and the entries
  of \<open>temp\<close> pushed onto \<open>optSchedule\<close> from the last to the first. Reading
  \<open>optFinalCondition\<close> when no final condition has set it is \<open>Uninitialised\<close>.
\<close>

definition reconstruct :: "tables \<Rightarrow> int \<Rightarrow> RepairSchedule
                            \<Rightarrow> cost \<times> int option \<times> fileBlock list
                            \<Rightarrow> (failure + (cost \<times> RepairSchedule \<times> fileBlock list)) option" where
  "reconstruct T startYr optSchedule = (\<lambda>(minTotalCost, optFinalCondition, file).
     case optFinalCondition of
       None \<Rightarrow> Some (Inl Uninitialised)
     | Some y \<Rightarrow>
         obind (walkSchedule T startYr 100 y [])
           (\<lambda>temp. Some (Inr (minTotalCost, optSchedule @ rev temp, file))))"

text \<open>
  The whole function: the tables, the boundary, the fill, the scan of the final
  conditions and the reconstruction. The result is the returned \<open>minTotalCost\<close>,
  the contents of \<open>optSchedule\<close> after the call and the contents of the file;
  \<open>None\<close> is a call that does not return. The text written to \<open>cout\<close> is not
  part of the model.
\<close>

definition findOptSchedule :: "variant \<Rightarrow> BridgeInfo \<Rightarrow> (int \<Rightarrow> int \<Rightarrow> int) \<Rightarrow> RepairEnvMat
                                \<Rightarrow> CostMap \<Rightarrow> ImproveMat \<Rightarrow> int \<Rightarrow> RepairSchedule
                                \<Rightarrow> (failure + (cost \<times> RepairSchedule \<times> fileBlock list)) option" where
  "findOptSchedule v bridge ratingsDecay repairs costs impMat limit optSchedule =
     obind (Some (bind (boundary bridge ratingsDecay limit initTables)
                       (fill v bridge ratingsDecay repairs costs impMat limit)))
       (\<lambda>T. obind (finalScan T [limit..7] (Infinity, None, []))
                    (reconstruct T (startYear bridge) optSchedule))"

definition findOptEnvSchedule :: "BridgeInfo \<Rightarrow> (int \<Rightarrow> int \<Rightarrow> int) \<Rightarrow> RepairEnvMat \<Rightarrow> ImproveMat
                                   \<Rightarrow> int \<Rightarrow> RepairSchedule
                                   \<Rightarrow> (failure + (cost \<times> RepairSchedule \<times> fileBlock list)) option" where
  "findOptEnvSchedule bridge ratingsDecay repairs impMat limit optSchedule =
     findOptSchedule EnvVariant bridge ratingsDecay repairs Map.empty impMat limit optSchedule"

definition findOptCostSchedule :: "BridgeInfo \<Rightarrow> (int \<Rightarrow> int \<Rightarrow> int) \<Rightarrow> RepairEnvMat \<Rightarrow> CostMap
                                    \<Rightarrow> ImproveMat \<Rightarrow> int \<Rightarrow> RepairSchedule
                                    \<Rightarrow> (failure + (cost \<times> RepairSchedule \<times> fileBlock list)) option" where
  "findOptCostSchedule bridge ratingsDecay repairs costs impMat limit optSchedule =
     findOptSchedule CostVariant bridge ratingsDecay repairs costs impMat limit optSchedule"

subsection \<open>Vocabulary for the properties of the schedulers\<close>

text \<open>
  The four values of a cell of the tables, also after a step that may fail; the values
  the boundary loop gives a cell; and the tables in which no assigned predecessor year
  lies after the year of its cell.
\<close>

definition cell :: "tables \<Rightarrow> int \<Rightarrow> int \<Rightarrow> cost \<times> int option \<times> int option \<times> int option" where
  "cell T x y = (M T x y, preX T x y, preY T x y, preRepair T x y)"

definition cellAfter :: "failure + tables \<Rightarrow> int \<Rightarrow> int
                           \<Rightarrow> (cost \<times> int option \<times> int option \<times> int option) option" where
  "cellAfter r x y = (case r of Inl e \<Rightarrow> None | Inr T \<Rightarrow> Some (cell T x y))"

definition sentinel :: "int \<Rightarrow> int \<Rightarrow> cost \<times> int option \<times> int option \<times> int option" where
  "sentinel rating i = (if i \<ge> rating then Fin 0 else Infinity, Some (-1), Some 0, Some 0)"

definition backward :: "tables \<Rightarrow> bool" where
  "backward T = (\<forall>x y px. preX T x y = Some px \<longrightarrow> px \<le> x)"

section \<open>Example inputs\<close>

text \<open>
  A bridge deck of 10 by 8 with 1000 vehicles a day and no growth or discount, one
  catalog row for repair 5 (ratings 4 to 6, two levels up), and the improvement
  coefficients that blackBox.cpp sets up for the ratings 4, 5 and 6.
\<close>

definition deck :: BridgeInfo where
  "deck = \<lparr>bridgeWidth = 8, bridgeLength = 10, bridgeID = 1, bridgeAADT = 1000, bridgeAADTT = 100,
           trafficGrowthRate = 0, discountRate = 0, startRating = 7, startYear = 2000\<rparr>"

definition patch :: RepairEnv where
  "patch = \<lparr>rID = 5, LB = 4, UB = 6, improvement = 2, duration = 1, repairMean = 1, trafficMean = 0\<rparr>"

definition impMat456 :: ImproveMat where
  "impMat456 = [\<lparr>condition = 4, coef = 15 / 100\<rparr>, \<lparr>condition = 5, coef = 10 / 100\<rparr>,
                \<lparr>condition = 6, coef = 5 / 100\<rparr>]"


text \<open>
  A deck that starts at rating 8 and takes 50 years to fall to the floor 7, with one
  repair (repair 5, one level up from rating 7) at unit cost factor. \<open>fresh50\<close> are
  the tables in which the cells of rating 7 in the years 0 to 50 still hold the values
  of the boundary.
\<close>

definition decay50 :: "int \<Rightarrow> int \<Rightarrow> int" where
  "decay50 i j = (if i = 8 \<and> j = 7 then 50 else 0)"

definition deck8 :: BridgeInfo where
  "deck8 = deck\<lparr>startRating := 8\<rparr>"

definition patch7 :: RepairEnv where
  "patch7 = \<lparr>rID = 5, LB = 7, UB = 7, improvement = 1, duration = 1, repairMean = 1, trafficMean = 0\<rparr>"

definition unitCosts :: CostMap where
  "unitCosts = [5 \<mapsto> 1]"

definition fresh50 :: "tables \<Rightarrow> bool" where
  "fresh50 T = (\<forall>x. 0 \<le> x \<and> x \<le> 50 \<longrightarrow> cell T x 7 = (Fin 0, Some (-1), Some 0, Some 0))"

text \<open>
  A deck that starts at rating 7 with floor 6, and a decay table in which rating 6 is
  reached after 100 years from 7 and from 8, and every other entry is 0.
  \<open>stallAt y\<close> are the tables during the fill before year \<open>y\<close>: the cells of rating 6
  hold the values of the boundary, the cells of rating 7 hold them from year \<open>y\<close> on,
  and in the years from 1 to \<open>y - 1\<close> the cell of rating 7 is its own predecessor.
\<close>

definition decayStall :: "int \<Rightarrow> int \<Rightarrow> int" where
  "decayStall i j = (if j = 6 \<and> (i = 7 \<or> i = 8) then 100 else 0)"

definition deck7 :: BridgeInfo where
  "deck7 = deck\<lparr>startRating := 7\<rparr>"

definition stallAt :: "int \<Rightarrow> tables \<Rightarrow> bool" where
  "stallAt y T =
     ((\<forall>x. 0 \<le> x \<and> x \<le> 100 \<longrightarrow> cell T x 6 = (Fin 0, Some (-1), Some 0, Some 0))
      \<and> (\<forall>x. y \<le> x \<and> x \<le> 100 \<longrightarrow> cell T x 7 = (Fin 0, Some (-1), Some 0, Some 0))
      \<and> (\<forall>x. 1 \<le> x \<and> x < y \<longrightarrow> cell T x 7 = (Fin 80, Some x, Some 7, Some 5)))"


text \<open>
  Tables in which every cell holds the value 0 and the pointer of the boundary, and
  the same tables after the cell of year 100 and rating 7 has elected repair 5 from
  the cell of year 50 and rating 7.
\<close>

definition sentinelTables :: tables where
  "sentinelTables = \<lparr>M = (\<lambda>x y. Fin 0), preX = (\<lambda>x y. Some (-1)), preY = (\<lambda>x y. Some 0),
                      preRepair = (\<lambda>x y. Some 0)\<rparr>"

definition elected :: tables where
  "elected = sentinelTables\<lparr>preX := upd2 (preX sentinelTables) 100 7 (Some 50),
                             preY := upd2 (preY sentinelTables) 100 7 (Some 7),
                             preRepair := upd2 (preRepair sentinelTables) 100 7 (Some 5)\<rparr>"

text \<open>Repair 5 as a repair of rating 6, one level up.\<close>

definition patch6 :: RepairEnv where
  "patch6 = patch7\<lparr>LB := 6, UB := 6\<rparr>"

text \<open>
  A deck at rating 7 with floor 6 whose traffic falls by a tenth each year, with a
  decay table in which rating 6 is reached 49 years after rating 7 and 149 years after
  rating 8, and rating 7 is reached 100 years after rating 8. Its catalog has two
  repairs of rating 6, one level up: repair 5 and repair 0, whose impact falls with the
  traffic. \<open>cutAt y\<close> are the tables during the fill before year \<open>y\<close>.
\<close>

definition decayCut :: "int \<Rightarrow> int \<Rightarrow> int" where
  "decayCut i j = (if i = 7 \<and> j = 6 then 49 else if i = 8 \<and> j = 7 then 100
                   else if i = 8 \<and> j = 6 then 149 else 0)"

definition deckCut :: BridgeInfo where
  "deckCut = deck\<lparr>trafficGrowthRate := - 1 / 10\<rparr>"

definition idle6 :: RepairEnv where
  "idle6 = \<lparr>rID = 0, LB = 6, UB = 6, improvement = 1, duration = 1, repairMean = 1, trafficMean = 1\<rparr>"

definition cutAt :: "int \<Rightarrow> tables \<Rightarrow> bool" where
  "cutAt y T =
     ((\<forall>x. 0 \<le> x \<and> x \<le> 49 \<longrightarrow> cell T x 6 = (Fin 0, Some (-1), Some 0, Some 0))
      \<and> cell T 0 7 = (Fin 0, Some (-1), Some 0, Some 0)
      \<and> (50 < y \<longrightarrow> cell T 50 6 = (Fin 80, Some 1, Some 6, Some 5))
      \<and> (51 < y \<longrightarrow> cell T 51 6 = (Fin 80, Some 2, Some 6, Some 5))
      \<and> (100 < y \<longrightarrow> cell T 100 6 = (Fin (80 + 4000 * (9 / 10) ^ 51), Some 51, Some 6, Some 0)
                    \<and> cell T 100 7 = (Infinity, Some 0, Some 7, Some 0)))"

text \<open>
  Tables with the chain that the fill of this deck leaves for the final rating 6: the
  cell of year 100 elects repair 0 from year 51, and the cell of year 51 elects
  repair 5 from year 2.
\<close>

definition chainTables :: tables where
  "chainTables = sentinelTables
     \<lparr>preX := upd2 (upd2 (preX sentinelTables) 100 6 (Some 51)) 51 6 (Some 2),
      preY := upd2 (upd2 (preY sentinelTables) 100 6 (Some 6)) 51 6 (Some 6),
      preRepair := upd2 (preRepair sentinelTables) 51 6 (Some 5)\<rparr>"
section \<open>Properties of mergeFourSched\<close>

lemma insort_key_least: "\<forall>x\<in>set xs. f p \<le> f x \<Longrightarrow> insort_key f p xs = p # xs"
  by (cases xs) auto

lemma sort_key_extract:
  "\<forall>x\<in>set A. f p < f x \<Longrightarrow> \<forall>x\<in>set B. f p \<le> f x \<Longrightarrow>
     sort_key f (A @ p # B) = p # sort_key f (A @ B)"
proof (induction A)
  case Nil
  then show ?case by (simp add: insort_key_least)
next
  case (Cons a A)
  then show ?case by auto
qed

lemma pick_spec:
  assumes "\<forall>i\<in>set is. \<not> ends i \<longrightarrow> its i \<noteq> []" and "sorted_wrt (<) is"
  shows "\<exists>mn' mi'. pick ends its is (mn, mi) = Inr (mn', mi')
           \<and> ((mi' = mi \<and> mn' = mn \<and> (\<forall>i\<in>set is. \<not> ends i \<longrightarrow> mn < headYear its i))
              \<or> (mi' \<in> set is \<and> \<not> ends mi' \<and> mn' = headYear its mi' \<and> mn' \<le> mn
                  \<and> (\<forall>i\<in>set is. \<not> ends i \<longrightarrow> mn' \<le> headYear its i)
                  \<and> (\<forall>i\<in>set is. \<not> ends i \<and> mi' < i \<longrightarrow> mn' < headYear its i)))"
  using assms
proof (induction "is" arbitrary: mn mi)
  case Nil
  then show ?case by simp
next
  case (Cons i "is")
  have pre: "\<forall>i\<in>set is. \<not> ends i \<longrightarrow> its i \<noteq> []" "sorted_wrt (<) is"
    and lt: "\<forall>k\<in>set is. i < k"
    using Cons.prems by auto
  show ?case
  proof (cases "ends i")
    case True
    from Cons.IH [OF pre, of mn mi] True show ?thesis by auto
  next
    case False
    with Cons.prems obtain p rest where hd: "its i = p # rest"
      by (cases "its i") auto
    then have hy: "headYear its i = repairYear p" by (simp add: headYear_def)
    show ?thesis
    proof (cases "repairYear p \<le> mn")
      case True
      from Cons.IH [OF pre, of "repairYear p" i] True False hd hy lt show ?thesis
        by (auto; fastforce)
    next
      case le: False
      from Cons.IH [OF pre, of mn mi] le False hd hy lt show ?thesis
        by (auto; fastforce)
    qed
  qed
qed

lemma slots_list: "set [0, 1, 2, 3] = slots"
  by (auto simp: slots_def)

lemma remaining_less:
  "m \<in> slots \<Longrightarrow> its m = p # rest \<Longrightarrow> remaining (its(m := rest)) < remaining its"
  by (auto simp: remaining_def slots_def)

lemma mergeReady_step:
  assumes rdy: "mergeReady ends its" and hd: "its m = p # rest"
  shows "mergeReady (if rest = [] then ends(m := True) else ends) (its(m := rest))"
  unfolding mergeReady_def
proof (intro ballI)
  fix i :: nat assume "i \<in> slots"
  with rdy have a: "ends i = (its i = [])" "sorted (map repairYear (its i))"
      "\<forall>p\<in>set (its i). repairYear p \<le> 9999"
    unfolding mergeReady_def by blast+
  show "(if rest = [] then ends(m := True) else ends) i = ((its(m := rest)) i = [])
          \<and> sorted (map repairYear ((its(m := rest)) i))
          \<and> (\<forall>p\<in>set ((its(m := rest)) i). repairYear p \<le> 9999)"
  proof (cases "i = m")
    case True
    with a hd show ?thesis by auto
  next
    case False
    with a show ?thesis by auto
  qed
qed

lemma sort_four_extract:
  assumes m: "m \<in> slots" and hd: "its m = p # rest"
    and le: "\<And>i x. i \<in> slots \<Longrightarrow> x \<in> set (its i) \<Longrightarrow> repairYear p \<le> repairYear x"
    and lt: "\<And>i x. i \<in> slots \<Longrightarrow> m < i \<Longrightarrow> x \<in> set (its i) \<Longrightarrow> repairYear p < repairYear x"
  shows "sort_key repairYear (its 3 @ its 2 @ its 1 @ its 0)
           = p # sort_key repairYear ((its(m := rest)) 3 @ (its(m := rest)) 2
                                       @ (its(m := rest)) 1 @ (its(m := rest)) 0)"
proof -
  have s: "(0::nat) \<in> slots" "(1::nat) \<in> slots" "(2::nat) \<in> slots" "(3::nat) \<in> slots"
    by (simp_all add: slots_def)
  have rest_le: "\<forall>x\<in>set rest. repairYear p \<le> repairYear x"
    using le [OF m] hd by simp
  consider "m = 0" | "m = 1" | "m = 2" | "m = 3" using m unfolding slots_def by blast
  then show ?thesis
  proof cases
    case 1
    have "sort_key repairYear ((its 3 @ its 2 @ its 1) @ p # rest)
            = p # sort_key repairYear ((its 3 @ its 2 @ its 1) @ rest)"
    proof (rule sort_key_extract)
      show "\<forall>x\<in>set (its 3 @ its 2 @ its 1). repairYear p < repairYear x"
        using lt [OF s(4)] lt [OF s(3)] lt [OF s(2)] 1 by simp blast
      show "\<forall>x\<in>set rest. repairYear p \<le> repairYear x" by (rule rest_le)
    qed
    with 1 hd show ?thesis by simp
  next
    case 2
    have "sort_key repairYear ((its 3 @ its 2) @ p # (rest @ its 0))
            = p # sort_key repairYear ((its 3 @ its 2) @ (rest @ its 0))"
    proof (rule sort_key_extract)
      show "\<forall>x\<in>set (its 3 @ its 2). repairYear p < repairYear x"
        using lt [OF s(4)] lt [OF s(3)] 2 by simp blast
      show "\<forall>x\<in>set (rest @ its 0). repairYear p \<le> repairYear x"
        using rest_le le [OF s(1)] by simp blast
    qed
    with 2 hd show ?thesis by simp
  next
    case 3
    have "sort_key repairYear (its 3 @ p # (rest @ its 1 @ its 0))
            = p # sort_key repairYear (its 3 @ (rest @ its 1 @ its 0))"
    proof (rule sort_key_extract)
      show "\<forall>x\<in>set (its 3). repairYear p < repairYear x"
        using lt [OF s(4)] 3 by simp
      show "\<forall>x\<in>set (rest @ its 1 @ its 0). repairYear p \<le> repairYear x"
        using rest_le le [OF s(1)] le [OF s(2)] by simp blast
    qed
    with 3 hd show ?thesis by simp
  next
    case 4
    have "sort_key repairYear ([] @ p # (rest @ its 2 @ its 1 @ its 0))
            = p # sort_key repairYear ([] @ (rest @ its 2 @ its 1 @ its 0))"
    proof (rule sort_key_extract)
      show "\<forall>x\<in>set []. repairYear p < repairYear x" by simp
      show "\<forall>x\<in>set (rest @ its 2 @ its 1 @ its 0). repairYear p \<le> repairYear x"
        using rest_le le [OF s(1)] le [OF s(2)] le [OF s(3)] by simp blast
    qed
    with 4 hd show ?thesis by simp
  qed
qed

lemma mergeLoop_done:
  "mergeReady ends its \<Longrightarrow> ends 0 \<and> ends 1 \<and> ends 2 \<and> ends 3 \<Longrightarrow>
     mergeLoop ends its res = Inr (res @ sort_key repairYear (its 3 @ its 2 @ its 1 @ its 0))"
  by (subst mergeLoop.simps) (simp add: mergeReady_def slots_def)

lemma mergeLoop_step:
  "\<not> (ends 0 \<and> ends 1 \<and> ends 2 \<and> ends 3) \<Longrightarrow>
   pick ends its [0, 1, 2, 3] (9999, 5) = Inr (mn, m) \<Longrightarrow> m \<noteq> 5 \<Longrightarrow> its m = p # rest \<Longrightarrow>
     mergeLoop ends its res
       = mergeLoop (if rest = [] then ends(m := True) else ends) (its(m := rest)) (res @ [p])"
  by (subst mergeLoop.simps) (auto simp del: pick.simps)

lemma mergeLoop_sort:
  "mergeReady ends its \<Longrightarrow>
     mergeLoop ends its res = Inr (res @ sort_key repairYear (its 3 @ its 2 @ its 1 @ its 0))"
proof (induction "remaining its" arbitrary: ends its res rule: less_induct)
  case less
  note rdy = less.prems
  show ?case
  proof (cases "ends 0 \<and> ends 1 \<and> ends 2 \<and> ends 3")
    case True
    with rdy show ?thesis by (rule mergeLoop_done)
  next
    case False
    have pre: "\<forall>i\<in>set [0, 1, 2, 3::nat]. \<not> ends i \<longrightarrow> its i \<noteq> []"
      using rdy unfolding slots_list mergeReady_def by blast
    have srt: "sorted_wrt (<) [0, 1, 2, 3::nat]" by simp
    from pick_spec [OF pre srt, of 9999 5, unfolded slots_list]
    obtain mn m where pk: "pick ends its [0, 1, 2, 3] (9999, 5) = Inr (mn, m)"
      and alt: "(m = 5 \<and> mn = 9999 \<and> (\<forall>i\<in>slots. \<not> ends i \<longrightarrow> 9999 < headYear its i))
              \<or> (m \<in> slots \<and> \<not> ends m \<and> mn = headYear its m \<and> mn \<le> 9999
                  \<and> (\<forall>i\<in>slots. \<not> ends i \<longrightarrow> mn \<le> headYear its i)
                  \<and> (\<forall>i\<in>slots. \<not> ends i \<and> m < i \<longrightarrow> mn < headYear its i))"
      by blast
    from False obtain i0 where i0: "i0 \<in> slots" "\<not> ends i0" unfolding slots_def by blast
    with rdy have "its i0 \<noteq> []" "\<forall>p\<in>set (its i0). repairYear p \<le> 9999"
      unfolding mergeReady_def by blast+
    then have "headYear its i0 \<le> 9999"
      by (cases "its i0") (simp_all add: headYear_def)
    with i0 alt
    have m: "m \<in> slots" and act: "\<not> ends m" and mn: "mn = headYear its m"
      and le: "\<forall>i\<in>slots. \<not> ends i \<longrightarrow> mn \<le> headYear its i"
      and lt: "\<forall>i\<in>slots. \<not> ends i \<and> m < i \<longrightarrow> mn < headYear its i"
      by fastforce+
    from m have m5: "m \<noteq> 5" by (auto simp: slots_def)
    from m act rdy have "its m \<noteq> []" unfolding mergeReady_def by blast
    then obtain p rest where hd: "its m = p # rest" by (cases "its m") auto
    with mn have mnp: "mn = repairYear p" by (simp add: headYear_def)
    have heads: "\<And>i x. i \<in> slots \<Longrightarrow> x \<in> set (its i) \<Longrightarrow>
                    \<not> ends i \<and> headYear its i \<le> repairYear x"
    proof -
      fix i x assume i: "i \<in> slots" and x: "x \<in> set (its i)"
      then obtain q qs where q: "its i = q # qs" by (cases "its i") auto
      with i rdy have "\<not> ends i" and "sorted (map repairYear (q # qs))"
        unfolding mergeReady_def by force+
      with q x show "\<not> ends i \<and> headYear its i \<le> repairYear x"
        by (auto simp: headYear_def)
    qed
    have all_le: "\<And>i x. i \<in> slots \<Longrightarrow> x \<in> set (its i) \<Longrightarrow> repairYear p \<le> repairYear x"
      using heads le mnp by fastforce
    have all_lt: "\<And>i x. i \<in> slots \<Longrightarrow> m < i \<Longrightarrow> x \<in> set (its i)
                    \<Longrightarrow> repairYear p < repairYear x"
      using heads lt mnp by fastforce
    let ?ends' = "if rest = [] then ends(m := True) else ends"
    let ?its' = "its(m := rest)"
    have rdy': "mergeReady ?ends' ?its'" using rdy hd by (rule mergeReady_step)
    have dec: "remaining ?its' < remaining its" using m hd by (rule remaining_less)
    have step: "mergeLoop ends its res = mergeLoop ?ends' ?its' (res @ [p])"
      using False pk m5 hd by (rule mergeLoop_step)
    have ext: "sort_key repairYear (its 3 @ its 2 @ its 1 @ its 0)
                 = p # sort_key repairYear (?its' 3 @ ?its' 2 @ ?its' 1 @ ?its' 0)"
      using m hd all_le all_lt by (rule sort_four_extract)
    from less.hyps [OF dec rdy', of "res @ [p]"] step ext show ?thesis by simp
  qed
qed

text \<open>
  Claim C2, as the code has it. For four nonempty schedules, each sorted by ascending
  \<open>repairYear\<close> and holding no year above 9999, \<open>mergeFourSched\<close> returns all
  entries sorted by ascending \<open>repairYear\<close>; entries with the same year come out
  schedule 4 first, then 3, then 2, then 1, each schedule's entries in their own order.
  This is the stable sort by year of \<open>vec4 @ vec3 @ vec2 @ vec1\<close>.
\<close>

theorem mergeFourSched_sorted:
  assumes "vec1 \<noteq> []" "vec2 \<noteq> []" "vec3 \<noteq> []" "vec4 \<noteq> []"
    and "sorted (map repairYear vec1)" "sorted (map repairYear vec2)"
        "sorted (map repairYear vec3)" "sorted (map repairYear vec4)"
    and "\<forall>p\<in>set (vec1 @ vec2 @ vec3 @ vec4). repairYear p \<le> 9999"
  shows "mergeFourSched vec1 vec2 vec3 vec4
           = Inr (sort_key repairYear (vec4 @ vec3 @ vec2 @ vec1))
         \<and> sorted (map repairYear (sort_key repairYear (vec4 @ vec3 @ vec2 @ vec1)))"
proof -
  let ?its = "\<lambda>i::nat. if i = 0 then vec1 else if i = 1 then vec2 else if i = 2 then vec3 else vec4"
  have "mergeReady (\<lambda>j. False) ?its"
    using assms by (auto simp: mergeReady_def slots_def)
  from mergeLoop_sort [OF this, of "[]"] show ?thesis
    by (simp add: mergeFourSched_def)
qed

theorem mergeFourSched_sorted_witness:
  "mergeFourSched [\<lparr>repairID = 1, repairYear = 2000\<rparr>, \<lparr>repairID = 1, repairYear = 2005\<rparr>]
                  [\<lparr>repairID = 2, repairYear = 2000\<rparr>]
                  [\<lparr>repairID = 3, repairYear = 2001\<rparr>] [\<lparr>repairID = 4, repairYear = 2000\<rparr>]
   = Inr [\<lparr>repairID = 4, repairYear = 2000\<rparr>, \<lparr>repairID = 2, repairYear = 2000\<rparr>,
          \<lparr>repairID = 1, repairYear = 2000\<rparr>, \<lparr>repairID = 3, repairYear = 2001\<rparr>,
          \<lparr>repairID = 1, repairYear = 2005\<rparr>]"
  using mergeFourSched_sorted
          [of "[\<lparr>repairID = 1, repairYear = 2000\<rparr>, \<lparr>repairID = 1, repairYear = 2005\<rparr>]"
              "[\<lparr>repairID = 2, repairYear = 2000\<rparr>]"
              "[\<lparr>repairID = 3, repairYear = 2001\<rparr>]" "[\<lparr>repairID = 4, repairYear = 2000\<rparr>]"]
  by simp

text \<open>
  Claim C2 as stated gives the tie to the lower-indexed schedule. The inner loop compares
  with \<open><=\<close>, so a later schedule with the same year replaces an earlier one: here
  the entry of schedule 2 comes out before the entry of schedule 1.
\<close>

theorem mergeFourSched_tie_counterexample:
  "mergeFourSched [\<lparr>repairID = 1, repairYear = 2000\<rparr>] [\<lparr>repairID = 2, repairYear = 2000\<rparr>]
                  [\<lparr>repairID = 3, repairYear = 2001\<rparr>] [\<lparr>repairID = 4, repairYear = 2002\<rparr>]
   = Inr [\<lparr>repairID = 2, repairYear = 2000\<rparr>, \<lparr>repairID = 1, repairYear = 2000\<rparr>,
          \<lparr>repairID = 3, repairYear = 2001\<rparr>, \<lparr>repairID = 4, repairYear = 2002\<rparr>]"
  by (simp add: mergeFourSched_def mergeLoop.simps)

text \<open>
  Claim C8. \<open>ends[j]\<close> starts as \<open>false\<close> for every vector, also for an empty one, so
  the first round reads \<open>itStart[i]->repairYear\<close> of an empty vector: on four empty
  schedules, and on one nonempty and three empty schedules, the code dereferences an end
  iterator instead of returning a schedule.
\<close>

theorem mergeFourSched_empty_deref:
  "mergeFourSched [] [] [] [] = Inl DerefEnd
   \<and> mergeFourSched [\<lparr>repairID = 1, repairYear = 2000\<rparr>] [] [] [] = Inl DerefEnd
   \<and> mergeFourSched [] [] [] [\<lparr>repairID = 1, repairYear = 2000\<rparr>] = Inl DerefEnd"
  by (simp add: mergeFourSched_def mergeLoop.simps)

section \<open>Properties of calEnvImpact\<close>

text \<open>
  Claim C4, as the code has it. When no catalog row has the requested \<open>repairID\<close>
  with \<open>LB <= rating <= UB\<close>, \<open>calEnvImpact\<close> raises nothing and returns \<open>0\<close>, the
  value \<open>CO2\<close> is initialised with on every call (in every category, scanning or not).
\<close>

theorem calEnvImpact_unmatched:
  assumes "\<forall>r\<in>set repairs. \<not> (rID r = repID \<and> LB r \<le> rating \<and> rating \<le> UB r)"
  shows "calEnvImpact bridge year repID rating repairs impMat = Inr 0"
proof -
  have "matchRow repairs repID rating = None"
    using assms by (auto simp: matchRow_def find_None_iff)
  then show ?thesis
    by (simp add: calEnvImpact_def scanCatalog_def Let_def)
qed

theorem calEnvImpact_unmatched_witness:
  "calEnvImpact deck 3 5 9 [patch] impMat456 = Inr 0"
  using calEnvImpact_unmatched [of "[patch]" 5 9 deck 3 impMat456]
  by (simp add: patch_def)

text \<open>
  Claim C4 as stated has the unmatched call return a value left over from an earlier
  iteration. A matching call returns 80 (category five) and 8 (category one); the
  unmatched calls that follow return 0, not that value.
\<close>

theorem calEnvImpact_not_stale_counterexample:
  "calEnvImpact deck 3 5 5 [patch] impMat456 = Inr 80
   \<and> calEnvImpact deck 3 5 9 [patch] impMat456 = Inr 0
   \<and> calEnvImpact deck 3 1 5 [patch\<lparr>rID := 1\<rparr>] impMat456 = Inr 8
   \<and> calEnvImpact deck 3 1 9 [patch\<lparr>rID := 1\<rparr>] impMat456 = Inr 0"
  by (simp add: calEnvImpact_def scanCatalog_def matchRow_def impCoeffOf_def useCoeff_def growth_def
        bind_def patch_def deck_def impMat456_def categoryOne_def categoryTwo_def categoryThree_def
        categoryFour_def categoryFive_def)

section \<open>Properties of ratingDecay\<close>

lemma forM_setDecay_row:
  "0 \<le> i \<Longrightarrow> i \<le> 9 \<Longrightarrow> \<forall>j\<in>set js. 0 \<le> j \<and> j \<le> 9 \<Longrightarrow>
     forM js (\<lambda>j. setDecay tp i j) t
       = Inr (\<lambda>i' j'. if i' = i \<and> j' \<in> set js then \<lfloor>tp j' - tp i'\<rfloor> else t i' j')"
proof (induction js arbitrary: t)
  case Nil
  then show ?case by simp
next
  case (Cons j js)
  then show ?case by (auto simp: setDecay_def fun_eq_iff)
qed

lemma forM_setDecay_all:
  "\<forall>i\<in>set is. 0 \<le> i \<and> i \<le> 9 \<and> (\<forall>j\<in>set (js i). 0 \<le> j \<and> j \<le> 9) \<Longrightarrow>
     forM is (\<lambda>i. forM (js i) (\<lambda>j. setDecay tp i j)) t
       = Inr (\<lambda>i' j'. if i' \<in> set is \<and> j' \<in> set (js i') then \<lfloor>tp j' - tp i'\<rfloor> else t i' j')"
proof (induction "is" arbitrary: t)
  case Nil
  then show ?case by simp
next
  case (Cons i "is")
  then show ?case by (auto simp: forM_setDecay_row fun_eq_iff)
qed

lemma forM_setTimePoint:
  "\<forall>i\<in>set is. 0 \<le> i \<and> i \<le> 9 \<and> 0 \<le> b ^ 2 - 4 * a * (c - real_of_int i) \<Longrightarrow>
     forM is (setTimePoint a b c) tp
       = Inr (\<lambda>i. if i \<in> set is then decayRoot a b c i else tp i)"
proof (induction "is" arbitrary: tp)
  case Nil
  then show ?case by simp
next
  case (Cons i "is")
  then show ?case
    by (auto simp: setTimePoint_def timePoint_def bind_def decayRoot_def Let_def fun_eq_iff)
qed

lemma discriminant_up:
  assumes "0 < a" "vertexRating a b c \<le> real_of_int limit" "limit \<le> i"
  shows "0 \<le> b ^ 2 - 4 * a * (c - real_of_int i)"
proof -
  from assms(1,2) have "- (b ^ 2) + 4 * a * c \<le> real_of_int limit * (4 * a)"
    by (simp add: vertexRating_def pos_divide_le_eq)
  moreover from assms(1,3) have "real_of_int limit * (4 * a) \<le> real_of_int i * (4 * a)"
    by (simp add: mult_right_mono)
  ultimately show ?thesis by (simp add: algebra_simps)
qed

lemma discriminant_down:
  assumes "a < 0" "9 \<le> vertexRating a b c" "i \<le> 9"
  shows "0 \<le> b ^ 2 - 4 * a * (c - real_of_int i)"
proof -
  from assms(1,2) have "- (b ^ 2) + 4 * a * c \<le> 9 * (4 * a)"
    by (simp add: vertexRating_def neg_le_divide_eq)
  moreover from assms(1,3) have "9 * (4 * a) \<le> real_of_int i * (4 * a)"
    by (simp add: mult_right_mono_neg)
  ultimately show ?thesis by (simp add: algebra_simps)
qed

lemma ratingDecay_table:
  assumes "fitValid a b c limit" "0 \<le> limit"
  shows "ratingDecay t (a, b, c) limit
           = Inr (\<lambda>i j. if limit \<le> i \<and> i \<le> 9 \<and> limit \<le> j \<and> j \<le> i
                         then \<lfloor>decayRoot a b c j - decayRoot a b c i\<rfloor> else t i j)"
proof -
  have disc: "\<forall>i\<in>set (rev [limit..9]). 0 \<le> i \<and> i \<le> 9 \<and> 0 \<le> b ^ 2 - 4 * a * (c - real_of_int i)"
    using assms discriminant_up [of a b c limit] discriminant_down [of a b c]
    by (auto simp: fitValid_def)
  have tp: "forM (rev [limit..9]) (setTimePoint a b c) (\<lambda>i. 0)
              = Inr (\<lambda>i. if i \<in> set (rev [limit..9]) then decayRoot a b c i else 0)"
    by (rule forM_setTimePoint [OF disc])
  let ?tp = "\<lambda>i. if i \<in> set (rev [limit..9]) then decayRoot a b c i else 0"
  have bnd: "\<forall>i\<in>set (rev [limit..9]). 0 \<le> i \<and> i \<le> 9 \<and> (\<forall>j\<in>set (rev [limit..i]). 0 \<le> j \<and> j \<le> 9)"
    using assms(2) by auto
  have tab: "forM (rev [limit..9]) (\<lambda>i. forM (rev [limit..i]) (\<lambda>j. setDecay ?tp i j)) t
               = Inr (\<lambda>i' j'. if i' \<in> set (rev [limit..9]) \<and> j' \<in> set (rev [limit..i'])
                               then \<lfloor>?tp j' - ?tp i'\<rfloor> else t i' j')"
    by (rule forM_setDecay_all [OF bnd])
  have val: "a \<noteq> 0" "\<not> (a > 0 \<and> vertexRating a b c > real_of_int limit)"
      "\<not> (\<not> a > 0 \<and> vertexRating a b c < 9)"
    using assms(1) by (auto simp: fitValid_def)
  have "ratingDecay t (a, b, c) limit
          = Inr (\<lambda>i' j'. if i' \<in> set (rev [limit..9]) \<and> j' \<in> set (rev [limit..i'])
                          then \<lfloor>?tp j' - ?tp i'\<rfloor> else t i' j')"
    using val tp tab by (simp add: ratingDecay_def bind_def)
  also have "(\<lambda>i' j'. if i' \<in> set (rev [limit..9]) \<and> j' \<in> set (rev [limit..i'])
                          then \<lfloor>?tp j' - ?tp i'\<rfloor> else t i' j')
           = (\<lambda>i j. if limit \<le> i \<and> i \<le> 9 \<and> limit \<le> j \<and> j \<le> i
                         then \<lfloor>decayRoot a b c j - decayRoot a b c i\<rfloor> else t i j)"
    by (auto simp: fun_eq_iff)
  finally show ?thesis .
qed

lemma decayRoot_mono:
  assumes "a \<noteq> 0" "j' \<le> j"
  shows "decayRoot a b c j \<le> decayRoot a b c j'"
proof (cases "0 < a")
  case True
  with assms(2) have "b ^ 2 - 4 * a * (c - real_of_int j') \<le> b ^ 2 - 4 * a * (c - real_of_int j)"
    by (simp add: algebra_simps)
  then have "sqrt (b ^ 2 - 4 * a * (c - real_of_int j')) \<le> sqrt (b ^ 2 - 4 * a * (c - real_of_int j))"
    by simp
  with True show ?thesis
    by (simp add: decayRoot_def divide_le_cancel)
next
  case False
  with assms(1) have neg: "a < 0" by simp
  with assms(2) have "4 * a * real_of_int j \<le> 4 * a * real_of_int j'"
    by (simp add: mult_left_mono_neg)
  then have "b ^ 2 - 4 * a * (c - real_of_int j) \<le> b ^ 2 - 4 * a * (c - real_of_int j')"
    by (simp add: algebra_simps)
  then have "sqrt (b ^ 2 - 4 * a * (c - real_of_int j)) \<le> sqrt (b ^ 2 - 4 * a * (c - real_of_int j'))"
    by simp
  with neg show ?thesis
    by (simp add: decayRoot_def divide_le_cancel)
qed

lemma forM_setTimePoint_failure:
  "forM is (setTimePoint a b c) tp = Inl e \<Longrightarrow> e = OutOfBounds \<or> e = NotFinite"
proof (induction "is" arbitrary: tp)
  case Nil
  then show ?case by simp
next
  case (Cons i "is")
  then show ?case
    by (auto simp: setTimePoint_def timePoint_def bind_def Let_def split: if_splits sum.splits)
qed

lemma forM_setDecay_failure:
  "forM is (\<lambda>i. forM (js i) (\<lambda>j. setDecay tp i j)) t = Inl e \<Longrightarrow> e = OutOfBounds"
proof (induction "is" arbitrary: t)
  case Nil
  then show ?case by simp
next
  case (Cons i "is")
  have row: "\<And>xs t. forM xs (\<lambda>j. setDecay tp i j) t = Inl e \<Longrightarrow> e = OutOfBounds"
  proof -
    fix xs t show "forM xs (\<lambda>j. setDecay tp i j) t = Inl e \<Longrightarrow> e = OutOfBounds"
      by (induction xs arbitrary: t) (auto simp: setDecay_def split: if_splits sum.splits)
  qed
  from Cons row show ?case by (auto split: sum.splits)
qed

lemma ratingDecay_loops:
  assumes "a \<noteq> 0" "\<not> (a > 0 \<and> vertexRating a b c > real_of_int limit)"
      "\<not> (\<not> a > 0 \<and> vertexRating a b c < 9)"
  shows "ratingDecay t (a, b, c) limit
           = bind (forM (rev [limit..9]) (setTimePoint a b c) (\<lambda>i. 0))
               (\<lambda>timePoints.
                  forM (rev [limit..9])
                    (\<lambda>i. forM (rev [limit..i]) (\<lambda>j. setDecay timePoints i j)) t)"
  using assms by (auto simp: ratingDecay_def)

lemma ratingDecay_loops_failure:
  assumes "a \<noteq> 0" "\<not> (a > 0 \<and> vertexRating a b c > real_of_int limit)"
      "\<not> (\<not> a > 0 \<and> vertexRating a b c < 9)"
    and "ratingDecay t (a, b, c) limit = Inl e"
  shows "e = OutOfBounds \<or> e = NotFinite"
proof (cases "forM (rev [limit..9]) (setTimePoint a b c) (\<lambda>i. 0)")
  case (Inl e')
  with assms(4) have "e' = e"
    unfolding ratingDecay_loops [OF assms(1-3)] by (simp add: bind_def)
  with Inl forM_setTimePoint_failure show ?thesis by blast
next
  case (Inr tp)
  with assms(4)
  have "forM (rev [limit..9]) (\<lambda>i. forM (rev [limit..i]) (\<lambda>j. setDecay tp i j)) t = Inl e"
    unfolding ratingDecay_loops [OF assms(1-3)] by (simp add: bind_def)
  from forM_setDecay_failure [OF this] show ?thesis by simp
qed

lemma forM_Inr_each:
  "forM xs body s = Inr s' \<Longrightarrow> i \<in> set xs \<Longrightarrow> \<exists>s1 s2. body i s1 = Inr s2"
proof (induction xs arbitrary: s)
  case Nil
  then show ?case by simp
next
  case (Cons x xs)
  from Cons.prems(1) obtain s1 where b: "body x s = Inr s1" and r: "forM xs body s1 = Inr s'"
    by (cases "body x s") auto
  show ?case
  proof (cases "i = x")
    case True
    with b show ?thesis by blast
  next
    case False
    with Cons.prems(2) have "i \<in> set xs" by simp
    from Cons.IH [OF r this] show ?thesis .
  qed
qed

lemma forM_setTimePoint_bounds:
  assumes "forM is (setTimePoint a b c) tp = Inr tp'" and "i \<in> set is"
  shows "0 \<le> i \<and> i \<le> 9"
proof -
  from forM_Inr_each [OF assms] obtain s1 s2 where "setTimePoint a b c i s1 = Inr s2" by blast
  then show ?thesis by (simp add: setTimePoint_def split: if_splits)
qed

lemma ratingDecay_Inr_valid:
  assumes "ratingDecay t (a, b, c) limit = Inr t'"
  shows "fitValid a b c limit \<and> (0 \<le> limit \<or> 9 < limit)"
proof -
  from assms have val: "a \<noteq> 0" "\<not> (a > 0 \<and> vertexRating a b c > real_of_int limit)"
      "\<not> (\<not> a > 0 \<and> vertexRating a b c < 9)"
    by (auto simp: ratingDecay_def split: if_splits)
  then have "fitValid a b c limit" by (auto simp: fitValid_def)
  moreover from assms obtain tp where "forM (rev [limit..9]) (setTimePoint a b c) (\<lambda>i. 0) = Inr tp"
    unfolding ratingDecay_loops [OF val] by (auto simp: bind_def split: sum.splits)
  from forM_setTimePoint_bounds [OF this, of limit] have "0 \<le> limit \<or> 9 < limit"
    by (cases "limit \<le> 9") auto
  ultimately show ?thesis by simp
qed

text \<open>
  Claim C1, as the code has it. For a fit that opens upward (\<open>a > 0\<close>) \<open>ratingDecay\<close>
  fails with "Need more low condition rating data." exactly when the vertex rating is
  above the floor \<open>limit\<close>, and returns a table when the vertex rating is at or below a
  floor that is not negative. For a fit that opens downward (\<open>a < 0\<close>) it fails with
  "Need more high condition rating data." exactly when the vertex rating is below 9, and
  returns a table when the vertex rating is at least 9.
\<close>

theorem ratingDecay_validation:
  "(0 < a \<longrightarrow>
      (ratingDecay t (a, b, c) limit = Inl NeedLowData) = (real_of_int limit < vertexRating a b c)
      \<and> (vertexRating a b c \<le> real_of_int limit \<and> 0 \<le> limit
           \<longrightarrow> (\<exists>t'. ratingDecay t (a, b, c) limit = Inr t')))
   \<and> (a < 0 \<longrightarrow>
      (ratingDecay t (a, b, c) limit = Inl NeedHighData) = (vertexRating a b c < 9)
      \<and> (9 \<le> vertexRating a b c \<and> 0 \<le> limit
           \<longrightarrow> (\<exists>t'. ratingDecay t (a, b, c) limit = Inr t')))"
proof (intro conjI impI)
  assume a: "0 < a"
  show "(ratingDecay t (a, b, c) limit = Inl NeedLowData) = (real_of_int limit < vertexRating a b c)"
  proof
    assume r: "ratingDecay t (a, b, c) limit = Inl NeedLowData"
    show "real_of_int limit < vertexRating a b c"
    proof (rule ccontr)
      assume "\<not> real_of_int limit < vertexRating a b c"
      with a have "a \<noteq> 0" "\<not> (a > 0 \<and> vertexRating a b c > real_of_int limit)"
          "\<not> (\<not> a > 0 \<and> vertexRating a b c < 9)" by auto
      from ratingDecay_loops_failure [OF this r] show False by simp
    qed
  next
    assume "real_of_int limit < vertexRating a b c"
    with a show "ratingDecay t (a, b, c) limit = Inl NeedLowData"
      by (simp add: ratingDecay_def)
  qed
next
  assume "0 < a" "vertexRating a b c \<le> real_of_int limit \<and> 0 \<le> limit"
  then have "fitValid a b c limit" "0 \<le> limit" by (auto simp: fitValid_def)
  from ratingDecay_table [OF this] show "\<exists>t'. ratingDecay t (a, b, c) limit = Inr t'" by blast
next
  assume a: "a < 0"
  show "(ratingDecay t (a, b, c) limit = Inl NeedHighData) = (vertexRating a b c < 9)"
  proof
    assume r: "ratingDecay t (a, b, c) limit = Inl NeedHighData"
    show "vertexRating a b c < 9"
    proof (rule ccontr)
      assume "\<not> vertexRating a b c < 9"
      with a have "a \<noteq> 0" "\<not> (a > 0 \<and> vertexRating a b c > real_of_int limit)"
          "\<not> (\<not> a > 0 \<and> vertexRating a b c < 9)" by auto
      from ratingDecay_loops_failure [OF this r] show False by simp
    qed
  next
    assume "vertexRating a b c < 9"
    with a show "ratingDecay t (a, b, c) limit = Inl NeedHighData"
      by (simp add: ratingDecay_def)
  qed
next
  assume "a < 0" "9 \<le> vertexRating a b c \<and> 0 \<le> limit"
  then have "fitValid a b c limit" "0 \<le> limit" by (auto simp: fitValid_def)
  from ratingDecay_table [OF this] show "\<exists>t'. ratingDecay t (a, b, c) limit = Inr t'" by blast
qed

theorem ratingDecay_validation_witness:
  "ratingDecay blankTable (1, 0, 10) 4 = Inl NeedLowData
   \<and> ratingDecay blankTable (1, -6, 9) 4 \<noteq> Inl NeedLowData
   \<and> ratingDecay blankTable (-1, 0, 8) 4 = Inl NeedHighData
   \<and> ratingDecay blankTable (-1, 0, 9) 4 \<noteq> Inl NeedHighData"
  using ratingDecay_validation [where a = 1 and t = blankTable and b = 0 and c = 10 and limit = 4]
    ratingDecay_validation [where a = 1 and t = blankTable and b = "-6" and c = 9 and limit = 4]
    ratingDecay_validation [where a = "-1" and t = blankTable and b = 0 and c = 8 and limit = 4]
    ratingDecay_validation [where a = "-1" and t = blankTable and b = 0 and c = 9 and limit = 4]
  by (simp add: vertexRating_def)

text \<open>
  Claim C1 as stated has the comparisons the other way round. The upward fit
  \<open>t\<^sup>2 - 6 t + 9\<close> has its vertex rating 0 below the floor 4 and is accepted; the
  upward fit \<open>t\<^sup>2 + 10\<close> has its vertex rating 10 above the floor and is rejected.
  The downward fit \<open>9 - t\<^sup>2\<close> has its vertex rating at 9 and is accepted; the downward
  fit \<open>8 - t\<^sup>2\<close> has its vertex rating below 9 and is rejected.
\<close>

theorem ratingDecay_validation_counterexample:
  "vertexRating 1 (-6) 9 < 4
   \<and> decayEntry (ratingDecay blankTable (1, -6, 9) 4) 9 4 \<noteq> None
   \<and> 4 < vertexRating 1 0 10
   \<and> ratingDecay blankTable (1, 0, 10) 4 = Inl NeedLowData
   \<and> 9 \<le> vertexRating (-1) 0 9
   \<and> decayEntry (ratingDecay blankTable (-1, 0, 9) 4) 9 4 \<noteq> None
   \<and> vertexRating (-1) 0 8 < 9
   \<and> ratingDecay blankTable (-1, 0, 8) 4 = Inl NeedHighData"
proof -
  have "fitValid 1 (-6) 9 4" "fitValid (-1) 0 9 4"
    by (simp_all add: fitValid_def vertexRating_def)
  from this [THEN ratingDecay_table, of blankTable]
  have "decayEntry (ratingDecay blankTable (1, -6, 9) 4) 9 4 \<noteq> None"
       "decayEntry (ratingDecay blankTable (-1, 0, 9) 4) 9 4 \<noteq> None"
    by (simp_all add: decayEntry_def)
  moreover have "ratingDecay blankTable (1, 0, 10) 4 = Inl NeedLowData"
    "ratingDecay blankTable (-1, 0, 8) 4 = Inl NeedHighData"
    by (simp_all add: ratingDecay_def vertexRating_def)
  ultimately show ?thesis by (simp add: vertexRating_def)
qed

text \<open>
  Claim C7, as the code has it. In a table returned by \<open>ratingDecay\<close> with floor
  \<open>limit\<close>, for ratings \<open>limit \<le> j' \<le> j < i \<le> 9\<close> the entry \<open>[i][j]\<close> is a
  non-negative integer and is at most the entry \<open>[i][j']\<close>: for fixed \<open>i\<close> the value
  does not decrease as \<open>j\<close> decreases.
\<close>

theorem ratingDecay_monotone:
  assumes "ratingDecay t (a, b, c) limit = Inr t'"
    and "limit \<le> j'" "j' \<le> j" "j < i" "i \<le> 9"
  shows "0 \<le> t' i j \<and> t' i j \<le> t' i j'"
proof -
  from ratingDecay_Inr_valid [OF assms(1)] assms(2-5)
  have v: "fitValid a b c limit" and l: "0 \<le> limit" by auto
  from v have a: "a \<noteq> 0" by (auto simp: fitValid_def)
  from ratingDecay_table [OF v l, of t] assms(1)
  have t': "t' = (\<lambda>i j. if limit \<le> i \<and> i \<le> 9 \<and> limit \<le> j \<and> j \<le> i
                         then \<lfloor>decayRoot a b c j - decayRoot a b c i\<rfloor> else t i j)"
    by simp
  have "decayRoot a b c i \<le> decayRoot a b c j" using a assms(4) by (intro decayRoot_mono) auto
  moreover have "decayRoot a b c j \<le> decayRoot a b c j'" using a assms(3) by (rule decayRoot_mono)
  ultimately show ?thesis
    using assms(2-5) by (auto simp: t' intro!: floor_mono)
qed

theorem ratingDecay_monotone_witness:
  "decayEntry (ratingDecay blankTable (-1, 0, 9) 7) 9 8 \<noteq> None
   \<and> 0 \<le> the (decayEntry (ratingDecay blankTable (-1, 0, 9) 7) 9 8)
   \<and> the (decayEntry (ratingDecay blankTable (-1, 0, 9) 7) 9 8)
       \<le> the (decayEntry (ratingDecay blankTable (-1, 0, 9) 7) 9 7)"
proof -
  have "fitValid (-1) 0 9 7" by (simp add: fitValid_def vertexRating_def)
  from ratingDecay_table [OF this, of blankTable]
  obtain T where T: "ratingDecay blankTable (-1, 0, 9) 7 = Inr T" by simp
  from ratingDecay_monotone [OF T, of 7 8 9] show ?thesis
    by (simp add: T decayEntry_def)
qed

lemma sqrt8_floor: "\<lfloor>sqrt 8 / 2\<rfloor> = 1"
proof -
  have lo: "2 \<le> sqrt 8" by (rule real_le_rsqrt) simp
  have hi: "sqrt 8 < 4" by (rule real_less_lsqrt) simp_all
  from lo hi show ?thesis by (simp add: floor_eq_iff)
qed

text \<open>
  Claim C7 as stated has the entries increase strictly. The entries are rounded down:
  on the fit \<open>9 - t\<^sup>2\<close> the curve reaches rating 8 after 1 year and rating 7 after
  \<open>sqrt 2\<close> years, and both entries \<open>[9][8]\<close> and \<open>[9][7]\<close> are 1.
\<close>

theorem ratingDecay_not_strict_counterexample:
  "decayEntry (ratingDecay blankTable (-1, 0, 9) 7) 9 8 = Some 1
   \<and> decayEntry (ratingDecay blankTable (-1, 0, 9) 7) 9 7 = Some 1"
proof -
  have "fitValid (-1) 0 9 7" by (simp add: fitValid_def vertexRating_def)
  from ratingDecay_table [OF this, of blankTable] sqrt8_floor show ?thesis
    by (simp add: decayEntry_def decayRoot_def)
qed

section \<open>Properties of the schedulers\<close>

lemma forM_induct:
  assumes "forM xs body s = Inr s'" and "P s"
    and "\<And>x s s'. x \<in> set xs \<Longrightarrow> P s \<Longrightarrow> body x s = Inr s' \<Longrightarrow> P s'"
  shows "P s'"
  using assms
proof (induction xs arbitrary: s)
  case Nil
  then show ?case by simp
next
  case (Cons x xs)
  from Cons.prems(1) obtain s1 where b: "body x s = Inr s1" and r: "forM xs body s1 = Inr s'"
    by (cases "body x s") auto
  from Cons.prems(3) [OF _ Cons.prems(2) b] have "P s1" by simp
  show ?case
  proof (rule Cons.IH [OF r \<open>P s1\<close>])
    fix y t t' assume "y \<in> set xs" "P t" "body y t = Inr t'"
    then show "P t'" using Cons.prems(3) [of y t t'] by simp
  qed
qed

lemma bind_Inr: "bind m f = Inr y \<Longrightarrow> \<exists>x. m = Inr x \<and> f x = Inr y"
  by (cases m) (auto simp: bind_def)

lemma backward_writeM: "writeM x y v T = Inr T' \<Longrightarrow> backward T \<Longrightarrow> backward T'"
  by (auto simp: writeM_def backward_def split: if_splits)

lemma backward_writePre:
  "writePre x y px py pr T = Inr T' \<Longrightarrow> px \<le> x \<Longrightarrow> backward T \<Longrightarrow> backward T'"
  by (auto simp: writePre_def backward_def upd2_def split: if_splits)

lemma backward_boundaryCell:
  assumes "boundaryCell rating year i T = Inr T'" "backward T"
  shows "backward T'"
proof -
  from bind_Inr [OF assms(1) [unfolded boundaryCell_def]]
  obtain T1 where w: "writeM year i (if i \<ge> rating then Fin 0 else Infinity) T = Inr T1"
    and p: "writePre year i (-1) 0 0 T1 = Inr T'" by blast
  from p have "0 \<le> year" by (auto simp: writePre_def inb_def split: if_splits)
  with backward_writePre [OF p] backward_writeM [OF w assms(2)] show ?thesis by simp
qed

lemma backward_boundary:
  assumes "boundary bridge ratingsDecay limit T = Inr T'" "backward T"
  shows "backward T'"
proof (rule forM_induct [OF assms(1) [unfolded boundary_def], where P = backward])
  show "backward T" by fact
next
  fix rating s s'
  assume s: "backward s"
    and b: "bind (decayAt ratingsDecay (startRating bridge) (rating + 1)) (\<lambda>first.
            bind (decayAt ratingsDecay (startRating bridge) rating) (\<lambda>last.
              forM [first..last] (\<lambda>year. forM (rev [1..8]) (boundaryCell rating year)) s)) = Inr s'"
  from bind_Inr [OF b] obtain first where
    b2: "bind (decayAt ratingsDecay (startRating bridge) rating) (\<lambda>last.
              forM [first..last] (\<lambda>year. forM (rev [1..8]) (boundaryCell rating year)) s) = Inr s'"
    by blast
  from bind_Inr [OF b2] obtain last where
    b3: "forM [first..last] (\<lambda>year. forM (rev [1..8]) (boundaryCell rating year)) s = Inr s'"
    by blast
  show "backward s'"
  proof (rule forM_induct [OF b3, where P = backward])
    show "backward s" by fact
  next
    fix year t t'
    assume t: "backward t" and r: "forM (rev [1..8]) (boundaryCell rating year) t = Inr t'"
    show "backward t'"
      by (rule forM_induct [OF r, where P = backward]) (use t backward_boundaryCell in blast)+
  qed
qed

lemma backward_accept:
  assumes "accept v year rating yearDecay j repairId tempCost (mn, T) = Inr (mn', T')"
    and "yearDecay \<le> year" "backward T"
  shows "backward T'"
proof (cases "T' = T")
  case True
  with assms(3) show ?thesis by simp
next
  case False
  with assms(1) have "writePre year rating yearDecay j repairId T = Inr T'"
    by (auto simp: accept_def bind_def split: if_splits sum.splits)
  from backward_writePre [OF this assms(2,3)] show ?thesis .
qed

lemma backward_candidate:
  assumes "candidate v val repairs year rating i yearDecay j (best, (mn, T)) = Inr (best', (mn', T'))"
    and "yearDecay \<le> year" "backward T"
  shows "backward T'"
proof -
  from bind_Inr [OF assms(1) [unfolded candidate_def prod.case]]
  obtain b where c2: "(case b of (repairCost, repairId) \<Rightarrow>
      bind (readM T yearDecay j) (\<lambda>m.
      bind (accept v year rating yearDecay j repairId (cadd m repairCost) (mn, T)) (\<lambda>mnT.
        Inr ((repairCost, repairId), mnT)))) = Inr (best', (mn', T'))" by blast
  obtain repairCost repairId where b: "b = (repairCost, repairId)" by (cases b)
  from bind_Inr [OF c2 [unfolded b prod.case]] obtain m where
    c3: "bind (accept v year rating yearDecay j repairId (cadd m repairCost) (mn, T)) (\<lambda>mnT.
        Inr ((repairCost, repairId), mnT)) = Inr (best', (mn', T'))" by blast
  from bind_Inr [OF c3]
  have "accept v year rating yearDecay j repairId (cadd m repairCost) (mn, T) = Inr (mn', T')"
    by auto
  from backward_accept [OF this assms(2,3)] show ?thesis .
qed

lemma backward_priorLoop:
  assumes "priorLoop v val repairs ratingsDecay limit year rating is (mn, T) = Inr (mn', T')"
    and "\<forall>i j. 0 \<le> ratingsDecay i j" "backward T"
  shows "backward T'"
  using assms(1,3)
proof (induction "is" arbitrary: mn T)
  case Nil
  then show ?case by simp
next
  case (Cons i "is")
  from bind_Inr [OF Cons.prems(1) [unfolded priorLoop.simps]]
  obtain dec where d: "decayAt ratingsDecay i rating = Inr dec"
    and r: "(if year - dec < 0 then Inr (mn, T)
       else bind (forM [limit..i - 1]
                    (candidate v (val (year - dec)) repairs year rating i (year - dec))
                    ((Infinity, 0), (mn, T)))
              (\<lambda>(best, mnT'). priorLoop v val repairs ratingsDecay limit year rating is mnT'))
        = Inr (mn', T')" by blast
  from d assms(2) have dec: "0 \<le> dec" by (auto simp: decayAt_def split: if_splits)
  show ?case
  proof (cases "year - dec < 0")
    case True
    with r Cons.prems(2) show ?thesis by simp
  next
    case False
    with r have "bind (forM [limit..i - 1]
                    (candidate v (val (year - dec)) repairs year rating i (year - dec))
                    ((Infinity, 0), (mn, T)))
              (\<lambda>(best, mnT'). priorLoop v val repairs ratingsDecay limit year rating is mnT')
        = Inr (mn', T')" by simp
    from bind_Inr [OF this] obtain st where
      f: "forM [limit..i - 1] (candidate v (val (year - dec)) repairs year rating i (year - dec))
            ((Infinity, 0), (mn, T)) = Inr st"
      and p: "(case st of (best, mnT') \<Rightarrow>
                 priorLoop v val repairs ratingsDecay limit year rating is mnT') = Inr (mn', T')"
      by blast
    obtain best mn1 T1 where st: "st = (best, (mn1, T1))" by (cases st) auto
    have "backward (snd (snd st))"
    proof (rule forM_induct [OF f, where P = "\<lambda>s. backward (snd (snd s))"])
      show "backward (snd (snd ((Infinity, 0), mn, T)))" using Cons.prems(2) by simp
    next
      fix j s s'
      assume "backward (snd (snd s))"
        and "candidate v (val (year - dec)) repairs year rating i (year - dec) j s = Inr s'"
      with dec backward_candidate [of v "val (year - dec)" repairs year rating i "year - dec" j
          "fst s" "fst (snd s)" "snd (snd s)" "fst s'" "fst (snd s')" "snd (snd s')"]
      show "backward (snd (snd s'))" by simp
    qed
    with st have "backward T1" by simp
    from Cons.IH [OF _ this] p st show ?thesis by simp
  qed
qed

lemma backward_fillCell:
  assumes "fillCell v bridge ratingsDecay repairs costs impMat limit year rating T = Inr T'"
    and "\<forall>i j. 0 \<le> ratingsDecay i j" "backward T"
  shows "backward T'"
proof -
  from bind_Inr [OF assms(1) [unfolded fillCell_def]] obtain onBoundary where
    r: "(if onBoundary then Inr T
          else bind (priorLoop v (valuate v bridge costs repairs impMat) repairs ratingsDecay
                       limit year rating [firstPrior v rating..8] (Infinity, T))
                 (\<lambda>(mn, T'). writeM year rating mn T')) = Inr T'" by blast
  show ?thesis
  proof (cases onBoundary)
    case True
    with r assms(3) show ?thesis by simp
  next
    case False
    with r have "bind (priorLoop v (valuate v bridge costs repairs impMat) repairs ratingsDecay
                       limit year rating [firstPrior v rating..8] (Infinity, T))
                 (\<lambda>(mn, T'). writeM year rating mn T') = Inr T'" by simp
    from bind_Inr [OF this] obtain st where
      p: "priorLoop v (valuate v bridge costs repairs impMat) repairs ratingsDecay
            limit year rating [firstPrior v rating..8] (Infinity, T) = Inr st"
      and w: "(case st of (mn, T') \<Rightarrow> writeM year rating mn T') = Inr T'" by blast
    obtain mn1 T1 where st: "st = (mn1, T1)" by (cases st)
    from backward_priorLoop [OF p [unfolded st] assms(2,3)] have "backward T1" .
    with w st backward_writeM show ?thesis by auto
  qed
qed

lemma backward_fill:
  assumes "fill v bridge ratingsDecay repairs costs impMat limit T = Inr T'"
    and "\<forall>i j. 0 \<le> ratingsDecay i j" "backward T"
  shows "backward T'"
proof (rule forM_induct [OF assms(1) [unfolded fill_def], where P = backward])
  show "backward T" by fact
next
  fix year s s'
  assume s: "backward s"
    and r: "forM [limit..8] (fillCell v bridge ratingsDecay repairs costs impMat limit year) s = Inr s'"
  show "backward s'"
    by (rule forM_induct [OF r, where P = backward])
       (use s assms(2) backward_fillCell in blast)+
qed

lemma backward_init: "backward initTables"
  by (simp add: backward_def initTables_def)
lemma obind_Some:
  "obind m f = Some (Inr y) \<Longrightarrow> \<exists>x. m = Some (Inr x) \<and> f x = Some (Inr y)"
  by (auto simp: obind_def split: option.splits sum.splits)

lemma readPre_Some: "readPre p x y = Inr v \<Longrightarrow> p x y = Some v \<and> inb x y"
  by (auto simp: readPre_def split: if_splits option.splits)

lemma walkSchedule_rule:
  assumes run: "walkSchedule T startYr x y temp = Some r"
    and step: "\<And>walk T startYr x y temp r.
      (\<And>T startYr x y temp r. walk T startYr x y temp = Some r \<Longrightarrow> P T startYr x y temp r) \<Longrightarrow>
      (case readPre (preX T) x y of
        Inl e \<Rightarrow> Some (Inl e)
      | Inr px \<Rightarrow>
          if px > -1 then
            (case readPre (preRepair T) x y of
               Inl e \<Rightarrow> Some (Inl e)
             | Inr pr \<Rightarrow>
                 if pr > 0 then
                   (case readPre (preY T) x y of
                      Inl e \<Rightarrow> Some (Inl e)
                    | Inr py \<Rightarrow>
                        walk T startYr px py
                          (temp @ [\<lparr>repairID = pr, repairYear = px + startYr\<rparr>]))
                 else Some (Inr temp))
          else Some (Inr temp)) = Some r \<Longrightarrow> P T startYr x y temp r"
  shows "P T startYr x y temp r"
proof (rule walkSchedule.raw_induct
         [where P = P and xa = "((((T, startYr), x), y), temp)" and ya = r, simplified])
  show "walkSchedule T startYr x y temp = Some r" by (rule run)
next
  fix walk T startYr x y temp r
  assume "\<And>T startYr x y temp r. walk T startYr x y temp = Some r \<Longrightarrow> P T startYr x y temp r"
    and "(case readPre (preX T) x y of
        Inl e \<Rightarrow> Some (Inl e)
      | Inr px \<Rightarrow>
          if - 1 < px then
            (case readPre (preRepair T) x y of
               Inl e \<Rightarrow> Some (Inl e)
             | Inr pr \<Rightarrow>
                 if 0 < pr then
                   (case readPre (preY T) x y of
                      Inl e \<Rightarrow> Some (Inl e)
                    | Inr py \<Rightarrow>
                        walk T startYr px py
                          (temp @ [\<lparr>repairID = pr, repairYear = px + startYr\<rparr>]))
                 else Some (Inr temp))
          else Some (Inr temp)) = Some r"
  then show "P T startYr x y temp r" by (rule step [simplified])
qed

lemma walkSchedule_descending:
  assumes "walkSchedule T startYr x y temp = Some (Inr out)"
  shows "\<exists>new. out = temp @ new \<and> (\<forall>p\<in>set new. 0 < repairID p)
               \<and> (backward T \<longrightarrow> sorted (rev (map repairYear new))
                                  \<and> (\<forall>p\<in>set new. repairYear p \<le> x + startYr))"
proof -
  have "\<forall>out. r = Inr out \<longrightarrow>
          (\<exists>new. out = temp @ new \<and> (\<forall>p\<in>set new. 0 < repairID p)
               \<and> (backward T \<longrightarrow> sorted (rev (map repairYear new))
                                  \<and> (\<forall>p\<in>set new. repairYear p \<le> x + startYr)))"
    if "walkSchedule T startYr x y temp = Some r" for r
    using that
  proof (induction rule: walkSchedule_rule [consumes 1, case_names step])
    case (step walk T startYr x y temp r)
    show ?case
    proof (intro impI allI)
      fix out assume out: "r = Inr out"
      show "\<exists>new. out = temp @ new \<and> (\<forall>p\<in>set new. 0 < repairID p)
               \<and> (backward T \<longrightarrow> sorted (rev (map repairYear new))
                                  \<and> (\<forall>p\<in>set new. repairYear p \<le> x + startYr))"
      proof (cases "readPre (preX T) x y")
        case (Inl e)
        with step(2) out show ?thesis by simp
      next
        case (Inr px)
        from readPre_Some [OF Inr] have le: "backward T \<Longrightarrow> px \<le> x" by (auto simp: backward_def)
        show ?thesis
        proof (cases "- 1 < px")
          case False
          with step(2) Inr out show ?thesis by simp
        next
          case True
          show ?thesis
          proof (cases "readPre (preRepair T) x y")
            case (Inl e)
            with step(2) Inr True out show ?thesis by simp
          next
            case pr: (Inr pr)
            show ?thesis
            proof (cases "0 < pr")
              case False
              with step(2) Inr True pr out show ?thesis by simp
            next
              case pos: True
              show ?thesis
              proof (cases "readPre (preY T) x y")
                case (Inl e)
                with step(2) Inr True pr pos out show ?thesis by simp
              next
                case py: (Inr py)
                let ?e = "\<lparr>repairID = pr, repairYear = px + startYr\<rparr>"
                from step(2) Inr True pr pos py out
                have "walk T startYr px py (temp @ [?e]) = Some (Inr out)" by simp
                from step(1) [OF this]
                obtain new where n: "out = (temp @ [?e]) @ new" "\<forall>p\<in>set new. 0 < repairID p"
                  "backward T \<Longrightarrow> sorted (rev (map repairYear new))"
                  "backward T \<Longrightarrow> \<forall>p\<in>set new. repairYear p \<le> px + startYr" by blast
                have "out = temp @ (?e # new)" using n(1) by simp
                moreover have "\<forall>p\<in>set (?e # new). 0 < repairID p" using n(2) pos by simp
                moreover have "sorted (rev (map repairYear (?e # new)))" if "backward T"
                  using n(3,4) [OF that] by (auto simp: sorted_append)
                moreover have "\<forall>p\<in>set (?e # new). repairYear p \<le> x + startYr" if "backward T"
                  using n(4) [OF that] le [OF that] by auto
                ultimately show ?thesis by blast
              qed
            qed
          qed
        qed
      qed
    qed
  qed
  with assms show ?thesis by blast
qed

lemma findOptSchedule_appends:
  assumes "findOptSchedule v bridge ratingsDecay repairs costs impMat limit optSchedule
             = Some (Inr (c, sched, report))"
  shows "\<exists>new. sched = optSchedule @ new \<and> (\<forall>p\<in>set new. 0 < repairID p)
               \<and> ((\<forall>i j. 0 \<le> ratingsDecay i j) \<longrightarrow> sorted (map repairYear new))"
proof -
  from obind_Some [OF assms(1) [unfolded findOptSchedule_def]] obtain T where
    T: "bind (boundary bridge ratingsDecay limit initTables)
             (fill v bridge ratingsDecay repairs costs impMat limit) = Inr T"
    and r: "obind (finalScan T [limit..7] (Infinity, None, []))
                  (reconstruct T (startYear bridge) optSchedule) = Some (Inr (c, sched, report))"
    by auto
  from bind_Inr [OF T] obtain T0 where b: "boundary bridge ratingsDecay limit initTables = Inr T0"
    and f: "fill v bridge ratingsDecay repairs costs impMat limit T0 = Inr T" by blast
  have bw: "backward T" if "\<forall>i j. 0 \<le> ratingsDecay i j"
    by (rule backward_fill [OF f that backward_boundary [OF b backward_init]])
  from obind_Some [OF r] obtain st where
    w: "reconstruct T (startYear bridge) optSchedule st = Some (Inr (c, sched, report))"
    by blast
  obtain mtc opt rows where st: "st = (mtc, opt, rows)" by (cases st) auto
  from w st obtain y where "opt = Some y"
    and w2: "obind (walkSchedule T (startYear bridge) 100 y [])
                   (\<lambda>temp. Some (Inr (mtc, optSchedule @ rev temp, rows))) = Some (Inr (c, sched, report))"
    by (cases opt) (auto simp: reconstruct_def)
  from obind_Some [OF w2] obtain temp where
    ws: "walkSchedule T (startYear bridge) 100 y [] = Some (Inr temp)"
    and s: "sched = optSchedule @ rev temp" by auto
  from walkSchedule_descending [OF ws]
  have "\<forall>p\<in>set temp. 0 < repairID p" "backward T \<Longrightarrow> sorted (rev (map repairYear temp))" by auto
  with s bw show ?thesis by (auto simp: rev_map)
qed

lemma forM_append: "forM (xs @ ys) body s = bind (forM xs body s) (forM ys body)"
  by (induction xs arbitrary: s) (auto simp: bind_def split: sum.splits)

lemma forM_total:
  assumes "P s" and "\<And>x s. x \<in> set xs \<Longrightarrow> P s \<Longrightarrow> \<exists>s'. body x s = Inr s' \<and> P s'"
  shows "\<exists>s'. forM xs body s = Inr s' \<and> P s'"
  using assms
proof (induction xs arbitrary: s)
  case Nil
  then show ?case by simp
next
  case (Cons x xs)
  from Cons.prems(2) [of x s] Cons.prems(1) obtain s1 where b: "body x s = Inr s1" and p: "P s1"
    by auto
  have "\<exists>s'. forM xs body s1 = Inr s' \<and> P s'"
  proof (rule Cons.IH [OF p])
    fix y t assume "y \<in> set xs" "P t"
    then show "\<exists>s'. body y t = Inr s' \<and> P s'" using Cons.prems(2) [of y t] by simp
  qed
  with b show ?case by simp
qed

lemma boundaryCell_cell:
  assumes "inb year i"
  shows "\<exists>T'. boundaryCell rating year i T = Inr T'
           \<and> (\<forall>x y. cell T' x y = (if x = year \<and> y = i then sentinel rating i else cell T x y))"
  using assms
  by (simp add: boundaryCell_def writeM_def writePre_def bind_def cell_def sentinel_def upd2_def)

lemma boundary_row:
  assumes "0 \<le> year" "year \<le> 100" "\<forall>i\<in>set is. 0 \<le> i \<and> i \<le> 8"
  shows "\<exists>T'. forM is (boundaryCell rating year) T = Inr T'
           \<and> (\<forall>x y. cell T' x y = (if x = year \<and> y \<in> set is then sentinel rating y else cell T x y))"
  using assms(3)
proof (induction "is" arbitrary: T)
  case Nil
  then show ?case by simp
next
  case (Cons i "is")
  from Cons.prems assms(1,2) have "inb year i" by (simp add: inb_def)
  from boundaryCell_cell [OF this, of rating T] obtain T1 where
    b: "boundaryCell rating year i T = Inr T1"
    and c: "\<forall>x y. cell T1 x y = (if x = year \<and> y = i then sentinel rating i else cell T x y)"
    by blast
  from Cons.IH [of T1] Cons.prems obtain T' where
    r: "forM is (boundaryCell rating year) T1 = Inr T'"
    and c': "\<forall>x y. cell T' x y = (if x = year \<and> y \<in> set is then sentinel rating y else cell T1 x y)"
    by auto
  from b r have "forM (i # is) (boundaryCell rating year) T = Inr T'" by simp
  moreover from c c'
  have "\<forall>x y. cell T' x y = (if x = year \<and> y \<in> set (i # is) then sentinel rating y else cell T x y)"
    by auto
  ultimately show ?case by blast
qed

lemma boundary_rows:
  assumes "\<forall>year\<in>set years. 0 \<le> year \<and> year \<le> 100"
  shows "\<exists>T'. forM years (\<lambda>year. forM (rev [1..8]) (boundaryCell rating year)) T = Inr T'
           \<and> (\<forall>x y. cell T' x y = (if x \<in> set years \<and> 1 \<le> y \<and> y \<le> 8 then sentinel rating y
                                     else cell T x y))"
  using assms
proof (induction years arbitrary: T)
  case Nil
  then show ?case by simp
next
  case (Cons year years)
  have "\<forall>i\<in>set (rev [1..8]). 0 \<le> i \<and> i \<le> (8::int)" by auto
  from boundary_row [OF _ _ this, of year rating T] Cons.prems obtain T1 where
    b: "forM (rev [1..8]) (boundaryCell rating year) T = Inr T1"
    and c: "\<forall>x y. cell T1 x y = (if x = year \<and> y \<in> set (rev [1..8]) then sentinel rating y else cell T x y)"
    by auto
  from Cons.IH [of T1] Cons.prems obtain T' where
    r: "forM years (\<lambda>year. forM (rev [1..8]) (boundaryCell rating year)) T1 = Inr T'"
    and c': "\<forall>x y. cell T' x y = (if x \<in> set years \<and> 1 \<le> y \<and> y \<le> 8 then sentinel rating y
                                     else cell T1 x y)"
    by auto
  from b r have "forM (year # years) (\<lambda>year. forM (rev [1..8]) (boundaryCell rating year)) T = Inr T'"
    by simp
  moreover from c c'
  have "\<forall>x y. cell T' x y = (if x \<in> set (year # years) \<and> 1 \<le> y \<and> y \<le> 8 then sentinel rating y
                                     else cell T x y)"
    by auto
  ultimately show ?case by blast
qed
lemmas sched_defs = fillCell_def priorLoop.simps candidate_def tryRepair_def accept_def
  readM_def writeM_def readPre_def writePre_def decayAt_def inb_def upd2_def bind_def
  calEnvImpact_def scanCatalog_def matchRow_def impCoeffOf_def useCoeff_def growth_def
  categoryOne_def categoryTwo_def categoryThree_def categoryFour_def categoryFive_def
  cell_def Let_def

lemma value_patch7:
  "0 \<le> yd \<Longrightarrow> valuate v deck8 unitCosts [patch7] impMat456 yd patch7 7 = Inr 80"
  by (cases v)
     (simp_all add: sched_defs deck8_def deck_def patch7_def unitCosts_def impMat456_def)

lemma year50_step:
  assumes y: "0 \<le> y" "y \<le> 100" and f: "fresh50 T"
  shows "\<exists>T'. forM [7..8] (fillCell v deck8 decay50 [patch7] unitCosts impMat456 7 y) T = Inr T'
           \<and> fresh50 T'
           \<and> (51 \<le> y \<longrightarrow> cell T' y 7 = (Fin 80, Some (y - 50), Some 7, Some 5))
           \<and> (\<forall>x. x \<noteq> y \<longrightarrow> cell T' x 7 = cell T x 7)"
proof (cases "y \<le> 50")
  case True
  with y f have c: "M T y 7 = Fin 0" "preX T y 7 = Some (-1)"
    by (auto simp: fresh50_def cell_def)
  have u: "[7..8] = [7, 8::int]" by (simp add: upto_rec1)
  have e: "[firstPrior EnvVariant 8..8] = []" "[firstPrior CostVariant 8..8] = [8]" "[7..8 - 1] = [7::int]"
    by (simp_all add: upto_rec1)
  show ?thesis
  proof (cases "y = 0")
    case y0: True
    with f show ?thesis
      by (simp add: u fillCell_def decayAt_def bind_def deck8_def deck_def decay50_def)
  next
    case False
    with y have y1: "1 \<le> y" by simp
    show ?thesis
    proof (cases v)
      case EnvVariant
      with True y y1 f show ?thesis
        by (simp add: u e sched_defs deck8_def deck_def decay50_def fresh50_def)
    next
      case CostVariant
      with True y y1 f c value_patch7 [of y CostVariant] show ?thesis
        by (simp add: u e sched_defs deck8_def deck_def decay50_def fresh50_def patch7_def)
    qed
  qed
next
  case False
  with y have y51: "51 \<le> y" by simp
  with y f have c: "M T (y - 50) 7 = Fin 0" "preX T (y - 50) 7 = Some (-1)"
    by (auto simp: fresh50_def cell_def)
  have u: "[7..8] = [7, 8::int]" by (simp add: upto_rec1)
  have e: "[firstPrior EnvVariant 8..8] = []" "[firstPrior CostVariant 8..8] = [8]" "[7..8 - 1] = [7::int]"
     "[firstPrior EnvVariant 7..8] = [8]" "[firstPrior CostVariant 7..8] = [7, 8]" "[7..7 - 1] = ([]::int list)"
    by (simp_all add: upto_rec1)
  show ?thesis
  proof (cases v)
    case EnvVariant
    with y y51 f c value_patch7 [of "y - 50" EnvVariant] show ?thesis
      by (simp add: u e sched_defs deck8_def deck_def decay50_def fresh50_def patch7_def cle_def
               del: valuate.simps)
  next
    case CostVariant
    with y y51 f c value_patch7 [of "y - 50" CostVariant] value_patch7 [of y CostVariant] show ?thesis
      by (simp add: u e sched_defs deck8_def deck_def decay50_def fresh50_def patch7_def
               del: valuate.simps)
  qed
qed
lemma forM_upto_total:
  assumes "P lo s"
    and "\<And>y s. lo \<le> y \<Longrightarrow> y \<le> hi \<Longrightarrow> P y s \<Longrightarrow> \<exists>s'. body y s = Inr s' \<and> P (y + 1) s'"
    and "lo \<le> hi + 1"
  shows "\<exists>s'. forM [lo..hi] body s = Inr s' \<and> P (hi + 1) s'"
  using assms
proof (induction "nat (hi + 1 - lo)" arbitrary: lo s)
  case 0
  then have "lo = hi + 1" by simp
  with "0.prems"(1) show ?case by simp
next
  case (Suc n)
  then have le: "lo \<le> hi" by simp
  from Suc.prems(2) [OF _ le Suc.prems(1)] obtain s1 where
    b: "body lo s = Inr s1" and p: "P (lo + 1) s1" by auto
  have "\<exists>s'. forM [lo + 1..hi] body s1 = Inr s' \<and> P (hi + 1) s'"
  proof (rule Suc.hyps(1) [OF _ p])
    show "n = nat (hi + 1 - (lo + 1))" using Suc.hyps(2) by simp
    show "lo + 1 \<le> hi + 1" using le by simp
  next
    fix y t assume "lo + 1 \<le> y" "y \<le> hi" "P y t"
    then show "\<exists>s'. body y t = Inr s' \<and> P (y + 1) s'" using Suc.prems(2) [of y t] by simp
  qed
  with b le show ?case by (simp add: upto_rec1 [of lo hi])
qed

lemma cell_init: "cell initTables x y = (Fin 0, None, None, None)"
  by (simp add: cell_def initTables_def)

lemma boundary50:
  "\<exists>T. boundary deck8 decay50 7 initTables = Inr T \<and> fresh50 T"
proof -
  have "\<forall>year\<in>set [0..50]. 0 \<le> year \<and> year \<le> (100::int)" by auto
  from boundary_rows [OF this, of 7 initTables] obtain T where
    b: "forM [0..50] (\<lambda>year. forM (rev [1..8]) (boundaryCell 7 year)) initTables = Inr T"
    and c: "\<forall>x y. cell T x y = (if x \<in> set [0..50] \<and> 1 \<le> y \<and> y \<le> 8 then sentinel 7 y
                                  else cell initTables x y)" by blast
  have "[7..startRating deck8 - 1] = [7]" by (simp add: deck8_def deck_def upto_rec1)
  with b have "boundary deck8 decay50 7 initTables = Inr T"
    by (simp add: boundary_def decayAt_def bind_def deck8_def deck_def decay50_def)
  moreover from c have "fresh50 T" by (simp add: fresh50_def sentinel_def)
  ultimately show ?thesis by blast
qed

lemma fill50:
  assumes "fresh50 T0"
  shows "\<exists>T. fill v deck8 decay50 [patch7] unitCosts impMat456 7 T0 = Inr T \<and> fresh50 T
             \<and> cell T 100 7 = (Fin 80, Some 50, Some 7, Some 5)"
proof -
  let ?body = "\<lambda>year. forM [7..8] (fillCell v deck8 decay50 [patch7] unitCosts impMat456 7 year)"
  have "\<exists>T. forM [0..99] ?body T0 = Inr T \<and> fresh50 T"
  proof (rule forM_total [where P = fresh50, OF assms])
    fix y T assume "y \<in> set [0..99]" "fresh50 T"
    with year50_step [of y T v] show "\<exists>T'. ?body y T = Inr T' \<and> fresh50 T'" by auto
  qed
  then obtain T99 where a: "forM [0..99] ?body T0 = Inr T99" and f: "fresh50 T99" by blast
  from year50_step [of 100 T99 v] f obtain T where
    b: "?body 100 T99 = Inr T" and g: "fresh50 T" "cell T 100 7 = (Fin 80, Some 50, Some 7, Some 5)"
    by auto
  have "[0..100] = [0..99] @ [100::int]" using upto_rec2 [of 0 100] by simp
  with a b have "fill v deck8 decay50 [patch7] unitCosts impMat456 7 T0 = Inr T"
    by (simp add: fill_def forM_append bind_def)
  with g show ?thesis by blast
qed

lemma run50:
  "findOptSchedule v deck8 decay50 [patch7] unitCosts impMat456 7 optSchedule
     = Some (Inr (Fin 80, optSchedule @ [\<lparr>repairID = 5, repairYear = 2050\<rparr>],
                  [(7, Fin 80, [(50, 5, 7)])]))"
proof -
  from boundary50 obtain T0 where b: "boundary deck8 decay50 7 initTables = Inr T0"
    and f0: "fresh50 T0" by blast
  from fill50 [OF f0, of v] obtain T where
    f: "fill v deck8 decay50 [patch7] unitCosts impMat456 7 T0 = Inr T"
    and g: "fresh50 T" and h: "cell T 100 7 = (Fin 80, Some 50, Some 7, Some 5)" by blast
  from g have s: "cell T 50 7 = (Fin 0, Some (-1), Some 0, Some 0)" by (simp add: fresh50_def)
  from h s have c: "M T 100 7 = Fin 80" "preX T 100 7 = Some 50" "preY T 100 7 = Some 7"
      "preRepair T 100 7 = Some 5" "preX T 50 7 = Some (-1)"
    by (simp_all add: cell_def)
  have wf: "walkFile T 100 7 [] = Some (Inr [(50, 5, 7)])"
    by (simp add: walkFile.simps [of T 100] walkFile.simps [of T 50] readPre_def inb_def c)
  have ws: "walkSchedule T 2000 100 7 [] = Some (Inr [\<lparr>repairID = 5, repairYear = 2050\<rparr>])"
    by (simp add: walkSchedule.simps [of T _ 100] walkSchedule.simps [of T _ 50] readPre_def inb_def c)
  have "[7..7] = [7::int]" by (simp add: upto_rec1)
  with b f wf ws c show ?thesis
    by (simp add: findOptSchedule_def reconstruct_def obind_def bind_def readM_def inb_def
          deck8_def deck_def)
qed
lemma value_patch7_deck7:
  "0 \<le> yd \<Longrightarrow> valuate CostVariant deck7 unitCosts [patch7] impMat456 yd patch7 7 = Inr 80"
  by (simp add: sched_defs deck7_def deck_def patch7_def unitCosts_def impMat456_def)

lemma stall_step:
  assumes y: "0 \<le> y" "y \<le> 100" and f: "stallAt y T"
  shows "\<exists>T'. forM [6..8] (fillCell CostVariant deck7 decayStall [patch7] unitCosts impMat456 6 y) T = Inr T'
           \<and> stallAt (y + 1) T'"
proof -
  from y f have c: "M T y 6 = Fin 0" "preX T y 6 = Some (-1)" "M T y 7 = Fin 0" "preX T y 7 = Some (-1)"
    by (auto simp: stallAt_def cell_def)
  have u: "[6..8] = [6, 7, 8::int]" by (simp add: upto_rec1)
  have e: "[firstPrior CostVariant 8..8] = [8]" "[firstPrior CostVariant 7..8] = [7, 8]"
    "[6..8 - 1] = [6, 7::int]" "[6..7 - 1] = [6::int]"
    by (simp_all add: upto_rec1)
  show ?thesis
  proof (cases "y = 0")
    case True
    with f c value_patch7_deck7 [of 0] show ?thesis
      by (simp add: u e sched_defs deck7_def deck_def decayStall_def stallAt_def patch7_def
               del: valuate.simps)
  next
    case False
    with y have y1: "1 \<le> y" by simp
    with y f c value_patch7_deck7 [of y] show ?thesis
      by (simp add: u e sched_defs deck7_def deck_def decayStall_def stallAt_def patch7_def
               del: valuate.simps)
  qed
qed
lemma walkFile_rule:
  assumes run: "walkFile T x y rows = Some r"
    and step: "\<And>walk T x y rows r.
      (\<And>T x y rows r. walk T x y rows = Some r \<Longrightarrow> P T x y rows r) \<Longrightarrow>
      (case readPre (preX T) x y of
        Inl e \<Rightarrow> Some (Inl e)
      | Inr px \<Rightarrow>
          if 0 \<le> px then
            (case readPre (preRepair T) x y of
               Inl e \<Rightarrow> Some (Inl e)
             | Inr pr \<Rightarrow>
                 (case readPre (preY T) x y of
                    Inl e \<Rightarrow> Some (Inl e)
                  | Inr py \<Rightarrow> walk T px py (rows @ [(px, pr, py)])))
          else Some (Inr rows)) = Some r \<Longrightarrow> P T x y rows r"
  shows "P T x y rows r"
proof (rule walkFile.raw_induct
         [where P = P and xa = "(((T, x), y), rows)" and ya = r, simplified])
  show "walkFile T x y rows = Some r" by (rule run)
next
  fix walk T x y rows r
  assume "\<And>T x y rows r. walk T x y rows = Some r \<Longrightarrow> P T x y rows r"
    and "(case readPre (preX T) x y of
        Inl e \<Rightarrow> Some (Inl e)
      | Inr px \<Rightarrow>
          if 0 \<le> px then
            (case readPre (preRepair T) x y of
               Inl e \<Rightarrow> Some (Inl e)
             | Inr pr \<Rightarrow>
                 (case readPre (preY T) x y of
                    Inl e \<Rightarrow> Some (Inl e)
                  | Inr py \<Rightarrow> walk T px py (rows @ [(px, pr, py)])))
          else Some (Inr rows)) = Some r"
  then show "P T x y rows r" by (rule step)
qed

lemma walkFile_self_loop:
  assumes "inb x y" "0 \<le> x" "preX T x y = Some x" "preY T x y = Some y" "preRepair T x y = Some pr"
  shows "walkFile T x y rows = None"
proof (rule ccontr)
  assume "walkFile T x y rows \<noteq> None"
  then obtain r where r: "walkFile T x y rows = Some r" by auto
  have "\<not> (T' = T \<and> x' = x \<and> y' = y)" if "walkFile T' x' y' rows' = Some r'" for T' x' y' rows' r'
    using that
  proof (induction rule: walkFile_rule [consumes 1, case_names step])
    case (step walk T' x' y' rows' r')
    show ?case
    proof
      assume eq: "T' = T \<and> x' = x \<and> y' = y"
      with step(2) assms have "walk T x y (rows' @ [(x, pr, y)]) = Some r'"
        by (simp add: readPre_def)
      from step(1) [OF this] show False by simp
    qed
  qed
  from this [OF r] show False by simp
qed

lemma boundaryStall:
  "\<exists>T. boundary deck7 decayStall 6 initTables = Inr T \<and> stallAt 0 T"
proof -
  have "\<forall>year\<in>set [0..100]. 0 \<le> year \<and> year \<le> (100::int)" by auto
  from boundary_rows [OF this, of 6 initTables] obtain T where
    b: "forM [0..100] (\<lambda>year. forM (rev [1..8]) (boundaryCell 6 year)) initTables = Inr T"
    and c: "\<forall>x y. cell T x y = (if x \<in> set [0..100] \<and> 1 \<le> y \<and> y \<le> 8 then sentinel 6 y
                                  else cell initTables x y)" by blast
  have "[6..startRating deck7 - 1] = [6]" by (simp add: deck7_def deck_def upto_rec1)
  with b have "boundary deck7 decayStall 6 initTables = Inr T"
    by (simp add: boundary_def decayAt_def bind_def deck7_def deck_def decayStall_def)
  moreover from c have "stallAt 0 T" by (simp add: stallAt_def sentinel_def)
  ultimately show ?thesis by blast
qed

lemma fillStall:
  assumes "stallAt 0 T0"
  shows "\<exists>T. fill CostVariant deck7 decayStall [patch7] unitCosts impMat456 6 T0 = Inr T
             \<and> stallAt 101 T"
proof -
  have "\<exists>T. forM [0..100]
               (\<lambda>year. forM [6..8]
                  (fillCell CostVariant deck7 decayStall [patch7] unitCosts impMat456 6 year)) T0
             = Inr T \<and> stallAt (100 + 1) T"
    by (rule forM_upto_total [where P = stallAt, OF assms]) (use stall_step in auto)
  then show ?thesis by (simp add: fill_def)
qed


lemma env_ignores_costs:
  "findOptSchedule EnvVariant bridge ratingsDecay repairs costs impMat limit optSchedule
     = findOptSchedule EnvVariant bridge ratingsDecay repairs costs' impMat limit optSchedule"
proof -
  have h: "valuate EnvVariant bridge costs repairs impMat
             = valuate EnvVariant bridge costs' repairs impMat"
    by (simp add: fun_eq_iff)
  have "fillCell EnvVariant bridge ratingsDecay repairs costs impMat limit
          = fillCell EnvVariant bridge ratingsDecay repairs costs' impMat limit"
    by (intro ext) (simp only: fillCell_def h)
  then have "fill EnvVariant bridge ratingsDecay repairs costs impMat limit
               = fill EnvVariant bridge ratingsDecay repairs costs' impMat limit"
    by (simp only: fill_def)
  then show ?thesis by (simp only: findOptSchedule_def)
qed

text \<open>
  Claim C10. A call of \<open>findOptEnvSchedule\<close> or \<open>findOptCostSchedule\<close> that returns
  leaves in \<open>optSchedule\<close> the entries it held before the call, unchanged and at their
  positions, followed by the new entries; on a decay table without negative entries the
  new entries are in chronological order.
\<close>

theorem optSchedule_only_appended:
  "(findOptEnvSchedule bridge ratingsDecay repairs impMat limit optSchedule
        = Some (Inr (c, sched, report))
      \<longrightarrow> (\<exists>new. sched = optSchedule @ new
                 \<and> ((\<forall>i j. 0 \<le> ratingsDecay i j) \<longrightarrow> sorted (map repairYear new))))
   \<and> (findOptCostSchedule bridge ratingsDecay repairs costs impMat limit optSchedule
        = Some (Inr (c, sched, report))
      \<longrightarrow> (\<exists>new. sched = optSchedule @ new
                 \<and> ((\<forall>i j. 0 \<le> ratingsDecay i j) \<longrightarrow> sorted (map repairYear new))))"
  using findOptSchedule_appends [of EnvVariant bridge ratingsDecay repairs Map.empty impMat limit
          optSchedule c sched report]
    findOptSchedule_appends [of CostVariant bridge ratingsDecay repairs costs impMat limit
          optSchedule c sched report]
  by (auto simp: findOptEnvSchedule_def findOptCostSchedule_def)

theorem optSchedule_only_appended_witness:
  "findOptEnvSchedule deck8 decay50 [patch7] impMat456 7 [\<lparr>repairID = 3, repairYear = 1990\<rparr>]
     = Some (Inr (Fin 80, [\<lparr>repairID = 3, repairYear = 1990\<rparr>, \<lparr>repairID = 5, repairYear = 2050\<rparr>],
                  [(7, Fin 80, [(50, 5, 7)])]))
   \<and> findOptCostSchedule deck8 decay50 [patch7] unitCosts impMat456 7 [\<lparr>repairID = 3, repairYear = 1990\<rparr>]
     = Some (Inr (Fin 80, [\<lparr>repairID = 3, repairYear = 1990\<rparr>, \<lparr>repairID = 5, repairYear = 2050\<rparr>],
                  [(7, Fin 80, [(50, 5, 7)])]))
   \<and> (\<forall>i j. 0 \<le> decay50 i j)
   \<and> (\<exists>new. [\<lparr>repairID = 3, repairYear = 1990\<rparr>, \<lparr>repairID = 5, repairYear = 2050\<rparr>]
               = [\<lparr>repairID = 3, repairYear = 1990\<rparr>] @ new
             \<and> sorted (map repairYear new))"
proof -
  have e: "findOptEnvSchedule deck8 decay50 [patch7] impMat456 7 [\<lparr>repairID = 3, repairYear = 1990\<rparr>]
     = Some (Inr (Fin 80, [\<lparr>repairID = 3, repairYear = 1990\<rparr>, \<lparr>repairID = 5, repairYear = 2050\<rparr>],
                  [(7, Fin 80, [(50, 5, 7)])]))"
    using run50 [of EnvVariant "[\<lparr>repairID = 3, repairYear = 1990\<rparr>]"]
      env_ignores_costs [of deck8 decay50 "[patch7]" Map.empty impMat456 7 _ unitCosts]
    by (simp add: findOptEnvSchedule_def)
  have c: "findOptCostSchedule deck8 decay50 [patch7] unitCosts impMat456 7 [\<lparr>repairID = 3, repairYear = 1990\<rparr>]
     = Some (Inr (Fin 80, [\<lparr>repairID = 3, repairYear = 1990\<rparr>, \<lparr>repairID = 5, repairYear = 2050\<rparr>],
                  [(7, Fin 80, [(50, 5, 7)])]))"
    using run50 [of CostVariant "[\<lparr>repairID = 3, repairYear = 1990\<rparr>]"]
    by (simp add: findOptCostSchedule_def)
  have d: "\<forall>i j. 0 \<le> decay50 i j" by (simp add: decay50_def)
  from optSchedule_only_appended [of deck8 decay50 "[patch7]" impMat456 7
      "[\<lparr>repairID = 3, repairYear = 1990\<rparr>]" "Fin 80"
      "[\<lparr>repairID = 3, repairYear = 1990\<rparr>, \<lparr>repairID = 5, repairYear = 2050\<rparr>]"
      "[(7, Fin 80, [(50, 5, 7)])]" unitCosts] e c d
  show ?thesis by simp
qed

text \<open>
  Claim C9. On this input \<open>findOptCostSchedule\<close> does not return. The boundary fills
  every year; in each year from 1 on the cell of rating 7 takes the repair from rating 7
  in the same year (\<open>i = 8\<close>, \<open>j = 7\<close>, \<open>ratingsDecay[8][7] = 0\<close>) while its own
  \<open>preX\<close> still holds \<open>-1\<close>, and so becomes its own predecessor; the loop
  \<open>while (preX[x][y]>= 0)\<close> for the final condition 7 then stays at the cell (100, 7).
\<close>

theorem findOptCostSchedule_runs_forever:
  "findOptCostSchedule deck7 decayStall [patch7] unitCosts impMat456 6 [] = None"
proof -
  from boundaryStall obtain T0 where b: "boundary deck7 decayStall 6 initTables = Inr T0"
    and s0: "stallAt 0 T0" by blast
  from fillStall [OF s0] obtain T where
    f: "fill CostVariant deck7 decayStall [patch7] unitCosts impMat456 6 T0 = Inr T"
    and s: "stallAt 101 T" by blast
  from s have c6: "cell T 100 6 = (Fin 0, Some (-1), Some 0, Some 0)"
    and c7: "cell T 100 7 = (Fin 80, Some 100, Some 7, Some 5)"
    by (simp_all add: stallAt_def)
  have w6: "walkFile T 100 6 [] = Some (Inr [])"
    using c6 by (simp add: walkFile.simps [of T 100 6] readPre_def inb_def cell_def)
  have w7: "walkFile T 100 7 [] = None"
    using c7 by (intro walkFile_self_loop [where pr = 5]) (simp_all add: inb_def cell_def)
  have "[6..7] = [6, 7::int]" by (simp add: upto_rec1)
  with b f w6 w7 c6 c7 show ?thesis
    by (simp add: findOptCostSchedule_def findOptSchedule_def obind_def bind_def readM_def
          inb_def cell_def)
qed

subsection \<open>The acceptance test\<close>

lemma accept_changes:
  assumes "accept v year rating yearDecay j repairId tempCost (mn, T) = Inr (mn', T')"
    and "(mn', T') \<noteq> (mn, T)"
  shows "improves v tempCost mn \<and> tempCost \<noteq> Fin 0
         \<and> (\<exists>px. readPre (preX T) yearDecay j = Inr px \<and> px \<noteq> yearDecay)
         \<and> mn' = tempCost
         \<and> writePre year rating yearDecay j repairId T = Inr T'"
proof -
  from assms have imp: "improves v tempCost mn" and nz: "tempCost \<noteq> Fin 0"
    by (auto simp: accept_def split: if_splits)
  with assms obtain px where px: "readPre (preX T) yearDecay j = Inr px"
    by (cases "readPre (preX T) yearDecay j") (auto simp: accept_def bind_def)
  with assms imp nz have ne: "px \<noteq> yearDecay"
    by (auto simp: accept_def bind_def split: if_splits)
  with assms imp nz px have "writePre year rating yearDecay j repairId T = Inr T'" "mn' = tempCost"
    by (auto simp: accept_def bind_def split: sum.splits)
  with imp nz px ne show ?thesis by blast
qed

lemma accept_tie:
  assumes "mn \<noteq> Fin 0" "readPre (preX T) yearDecay j = Inr px" "px \<noteq> yearDecay"
    "writePre year rating yearDecay j repairId T = Inr T'"
  shows "accept EnvVariant year rating yearDecay j repairId mn (mn, T) = Inr (mn, T')"
    and "accept CostVariant year rating yearDecay j repairId mn (mn, T) = Inr (mn, T)"
proof -
  from assms show "accept EnvVariant year rating yearDecay j repairId mn (mn, T) = Inr (mn, T')"
    by (simp add: accept_def bind_def cle_def)
  have "\<not> cless mn mn" by (cases mn) simp_all
  then show "accept CostVariant year rating yearDecay j repairId mn (mn, T) = Inr (mn, T)"
    by (simp add: accept_def)
qed

lemma accept_less:
  assumes "cless tempCost mn" "tempCost \<noteq> Fin 0" "readPre (preX T) yearDecay j = Inr px"
    "px \<noteq> yearDecay" "writePre year rating yearDecay j repairId T = Inr T'"
  shows "accept v year rating yearDecay j repairId tempCost (mn, T) = Inr (tempCost, T')"
  using assms by (cases v) (simp_all add: accept_def bind_def cle_def)

lemma candidate_Inr:
  assumes "candidate v val repairs year rating i yearDecay j (best, (mn, T)) = Inr (best', (mn', T'))"
  shows "forM repairs (tryRepair val i j) best = Inr best'
         \<and> (\<exists>m. readM T yearDecay j = Inr m
                \<and> accept v year rating yearDecay j (snd best') (cadd m (fst best')) (mn, T)
                    = Inr (mn', T'))"
  using assms
  by (auto simp: candidate_def bind_def split: sum.splits prod.splits)

lemma elect_facts:
  "forM [patch7] (tryRepair (valuate EnvVariant deck8 unitCosts [patch7] impMat456 50) 8 7) (Infinity, 0)
     = Inr (Fin 80, 5)"
  "readM sentinelTables 50 7 = Inr (Fin 0)"
  "readPre (preX sentinelTables) 50 7 = Inr (-1)"
  "writePre 100 7 50 7 5 sentinelTables = Inr elected"
  "elected \<noteq> sentinelTables"
proof -
  show "forM [patch7] (tryRepair (valuate EnvVariant deck8 unitCosts [patch7] impMat456 50) 8 7) (Infinity, 0)
     = Inr (Fin 80, 5)"
    using value_patch7 [of 50 EnvVariant]
    by (simp add: tryRepair_def bind_def patch7_def)
  show "readM sentinelTables 50 7 = Inr (Fin 0)"
    by (simp add: readM_def inb_def sentinelTables_def)
  show "readPre (preX sentinelTables) 50 7 = Inr (-1)"
    by (simp add: readPre_def inb_def sentinelTables_def)
  show "writePre 100 7 50 7 5 sentinelTables = Inr elected"
    by (simp add: writePre_def inb_def elected_def)
  have "preX elected 100 7 = Some 50" by (simp add: elected_def upd2_def)
  moreover have "preX sentinelTables 100 7 = Some (-1)" by (simp add: sentinelTables_def)
  ultimately show "elected \<noteq> sentinelTables" by auto
qed

text \<open>
  Claim C5. In both schedulers the tentative value \<open>M[yearDecay][j] + repairCost\<close>
  replaces the minimum of the cell (year, rating), and the pointers of the cell are
  written, only when the value is not 0, the cell (yearDecay, j) has a predecessor
  year other than \<open>yearDecay\<close>, and the value is at most the minimum in
  \<open>findOptEnvSchedule\<close>, below the minimum in \<open>findOptCostSchedule\<close>. Under these
  guards a value equal to the minimum is accepted by \<open>findOptEnvSchedule\<close> and left
  out by \<open>findOptCostSchedule\<close>, and a value below the minimum is accepted by both.
\<close>

theorem acceptance_test:
  "(candidate v val repairs year rating i yearDecay j (best, (mn, T)) = Inr (best', (mn', T'))
      \<and> (mn', T') \<noteq> (mn, T)
      \<longrightarrow> forM repairs (tryRepair val i j) best = Inr best'
          \<and> (\<exists>m. readM T yearDecay j = Inr m \<and> mn' = cadd m (fst best'))
          \<and> mn' \<noteq> Fin 0
          \<and> (\<exists>px. readPre (preX T) yearDecay j = Inr px \<and> px \<noteq> yearDecay)
          \<and> (case v of EnvVariant \<Rightarrow> cle mn' mn | CostVariant \<Rightarrow> cless mn' mn)
          \<and> writePre year rating yearDecay j (snd best') T = Inr T')
   \<and> (forM repairs (tryRepair val i j) best = Inr (repairCost, repairId)
        \<and> readM T yearDecay j = Inr m \<and> cadd m repairCost = mn \<and> mn \<noteq> Fin 0
        \<and> readPre (preX T) yearDecay j = Inr px \<and> px \<noteq> yearDecay
        \<and> writePre year rating yearDecay j repairId T = Inr T'
      \<longrightarrow> candidate EnvVariant val repairs year rating i yearDecay j (best, (mn, T))
            = Inr ((repairCost, repairId), (mn, T'))
          \<and> candidate CostVariant val repairs year rating i yearDecay j (best, (mn, T))
            = Inr ((repairCost, repairId), (mn, T)))
   \<and> (forM repairs (tryRepair val i j) best = Inr (repairCost, repairId)
        \<and> readM T yearDecay j = Inr m \<and> cless (cadd m repairCost) mn \<and> cadd m repairCost \<noteq> Fin 0
        \<and> readPre (preX T) yearDecay j = Inr px \<and> px \<noteq> yearDecay
        \<and> writePre year rating yearDecay j repairId T = Inr T'
      \<longrightarrow> candidate v val repairs year rating i yearDecay j (best, (mn, T))
            = Inr ((repairCost, repairId), (cadd m repairCost, T')))"
proof (intro conjI impI)
  assume a: "candidate v val repairs year rating i yearDecay j (best, (mn, T)) = Inr (best', (mn', T'))
             \<and> (mn', T') \<noteq> (mn, T)"
  from candidate_Inr [of v val repairs year rating i yearDecay j best mn T best' mn' T'] a
  obtain m where f: "forM repairs (tryRepair val i j) best = Inr best'"
    and m: "readM T yearDecay j = Inr m"
    and c: "accept v year rating yearDecay j (snd best') (cadd m (fst best')) (mn, T) = Inr (mn', T')"
    by blast
  from accept_changes [OF c] a
  have r: "improves v (cadd m (fst best')) mn" "cadd m (fst best') \<noteq> Fin 0"
    "\<exists>px. readPre (preX T) yearDecay j = Inr px \<and> px \<noteq> yearDecay"
    "mn' = cadd m (fst best')" "writePre year rating yearDecay j (snd best') T = Inr T'"
    by blast+
  from r(1,4) have i: "case v of EnvVariant \<Rightarrow> cle mn' mn | CostVariant \<Rightarrow> cless mn' mn"
    by (cases v) simp_all
  from f show "forM repairs (tryRepair val i j) best = Inr best'" .
  from m r(4) show "\<exists>m. readM T yearDecay j = Inr m \<and> mn' = cadd m (fst best')" by blast
  from r(2,4) show "mn' \<noteq> Fin 0" by simp
  from r(3) show "\<exists>px. readPre (preX T) yearDecay j = Inr px \<and> px \<noteq> yearDecay" .
  from i show "case v of EnvVariant \<Rightarrow> cle mn' mn | CostVariant \<Rightarrow> cless mn' mn" .
  from r(5) show "writePre year rating yearDecay j (snd best') T = Inr T'" .
next
  assume a: "forM repairs (tryRepair val i j) best = Inr (repairCost, repairId)
        \<and> readM T yearDecay j = Inr m \<and> cadd m repairCost = mn \<and> mn \<noteq> Fin 0
        \<and> readPre (preX T) yearDecay j = Inr px \<and> px \<noteq> yearDecay
        \<and> writePre year rating yearDecay j repairId T = Inr T'"
  then have t: "accept EnvVariant year rating yearDecay j repairId mn (mn, T) = Inr (mn, T')"
    "accept CostVariant year rating yearDecay j repairId mn (mn, T) = Inr (mn, T)"
    using accept_tie [of mn T yearDecay j px year rating repairId T'] by blast+
  from a t(1) show "candidate EnvVariant val repairs year rating i yearDecay j (best, (mn, T))
            = Inr ((repairCost, repairId), (mn, T'))"
    by (simp add: candidate_def bind_def)
  from a t(2) show "candidate CostVariant val repairs year rating i yearDecay j (best, (mn, T))
            = Inr ((repairCost, repairId), (mn, T))"
    by (simp add: candidate_def bind_def)
next
  assume a: "forM repairs (tryRepair val i j) best = Inr (repairCost, repairId)
        \<and> readM T yearDecay j = Inr m \<and> cless (cadd m repairCost) mn \<and> cadd m repairCost \<noteq> Fin 0
        \<and> readPre (preX T) yearDecay j = Inr px \<and> px \<noteq> yearDecay
        \<and> writePre year rating yearDecay j repairId T = Inr T'"
  then have "accept v year rating yearDecay j repairId (cadd m repairCost) (mn, T)
               = Inr (cadd m repairCost, T')"
    using accept_less [of "cadd m repairCost" mn T yearDecay j px year rating repairId T' v] by blast
  with a show "candidate v val repairs year rating i yearDecay j (best, (mn, T))
            = Inr ((repairCost, repairId), (cadd m repairCost, T'))"
    by (simp add: candidate_def bind_def)
qed

theorem acceptance_test_witness:
  "candidate EnvVariant (valuate EnvVariant deck8 unitCosts [patch7] impMat456 50) [patch7] 100 7 8 50 7
       ((Infinity, 0), (Infinity, sentinelTables)) = Inr ((Fin 80, 5), (Fin 80, elected))
   \<and> (Fin 80, elected) \<noteq> (Infinity, sentinelTables)
   \<and> readM sentinelTables 50 7 = Inr (Fin 0)
   \<and> readPre (preX sentinelTables) 50 7 = Inr (- 1)
   \<and> cle (Fin 80) Infinity
   \<and> writePre 100 7 50 7 5 sentinelTables = Inr elected
   \<and> candidate EnvVariant (valuate EnvVariant deck8 unitCosts [patch7] impMat456 50) [patch7] 100 7 8 50 7
       ((Infinity, 0), (Fin 80, sentinelTables)) = Inr ((Fin 80, 5), (Fin 80, elected))
   \<and> candidate CostVariant (valuate EnvVariant deck8 unitCosts [patch7] impMat456 50) [patch7] 100 7 8 50 7
       ((Infinity, 0), (Fin 80, sentinelTables)) = Inr ((Fin 80, 5), (Fin 80, sentinelTables))
   \<and> candidate CostVariant (valuate EnvVariant deck8 unitCosts [patch7] impMat456 50) [patch7] 100 7 8 50 7
       ((Infinity, 0), (Infinity, sentinelTables)) = Inr ((Fin 80, 5), (Fin 80, elected))"
  using elect_facts
    acceptance_test [where v = EnvVariant
      and val = "valuate EnvVariant deck8 unitCosts [patch7] impMat456 50" and repairs = "[patch7]"
      and year = 100 and rating = 7 and i = 8 and yearDecay = 50 and j = 7 and best = "(Infinity, 0)"
      and mn = Infinity and T = sentinelTables and best' = "(Fin 80, 5)" and mn' = "Fin 80"
      and T' = elected and repairCost = "Fin 80" and repairId = 5 and m = "Fin 0" and px = "- 1"]
    acceptance_test [where v = CostVariant
      and val = "valuate EnvVariant deck8 unitCosts [patch7] impMat456 50" and repairs = "[patch7]"
      and year = 100 and rating = 7 and i = 8 and yearDecay = 50 and j = 7 and best = "(Infinity, 0)"
      and mn = "Fin 80" and T = sentinelTables and best' = "(Fin 80, 5)" and mn' = "Fin 80"
      and T' = elected and repairCost = "Fin 80" and repairId = 5 and m = "Fin 0" and px = "- 1"]
    acceptance_test [where v = CostVariant
      and val = "valuate EnvVariant deck8 unitCosts [patch7] impMat456 50" and repairs = "[patch7]"
      and year = 100 and rating = 7 and i = 8 and yearDecay = 50 and j = 7 and best = "(Infinity, 0)"
      and mn = Infinity and T = sentinelTables and best' = "(Fin 80, 5)" and mn' = "Fin 80"
      and T' = elected and repairCost = "Fin 80" and repairId = 5 and m = "Fin 0" and px = "- 1"]
  by (simp add: cle_def)

subsection \<open>The prior ratings of a transition\<close>

lemma writePre_ptr:
  "writePre x y px py pr T = Inr T' \<Longrightarrow> preX T' x y = Some px \<and> preY T' x y = Some py"
  by (auto simp: writePre_def upd2_def split: if_splits)

lemma accept_ptr:
  assumes "accept v year rating yearDecay j repairId tempCost (mn, T) = Inr (mn', T')"
  shows "T' = T \<or> (preX T' year rating = Some yearDecay \<and> preY T' year rating = Some j)"
proof (cases "(mn', T') = (mn, T)")
  case True
  then show ?thesis by simp
next
  case False
  from accept_changes [OF assms False]
  have "writePre year rating yearDecay j repairId T = Inr T'" by blast
  from writePre_ptr [OF this] show ?thesis by blast
qed

lemma candidate_ptr:
  assumes "candidate v val repairs year rating i yearDecay j (best, (mn, T)) = Inr (best', (mn', T'))"
  shows "T' = T \<or> (preX T' year rating = Some yearDecay \<and> preY T' year rating = Some j)"
  using candidate_Inr [OF assms] accept_ptr by blast

lemma jloop_ptr:
  assumes "forM js (candidate v val repairs year rating i yearDecay) (best, (mn, T))
             = Inr (best', (mn', T'))"
  shows "T' = T \<or> (\<exists>j\<in>set js. preX T' year rating = Some yearDecay \<and> preY T' year rating = Some j)"
  using assms
proof (induction js arbitrary: best mn T)
  case Nil
  then show ?case by simp
next
  case (Cons j js)
  from Cons.prems obtain s1 where
    b: "candidate v val repairs year rating i yearDecay j (best, (mn, T)) = Inr s1"
    and r: "forM js (candidate v val repairs year rating i yearDecay) s1 = Inr (best', (mn', T'))"
    by (auto split: sum.splits)
  obtain best1 mn1 T1 where s1: "s1 = (best1, (mn1, T1))" by (cases s1) auto
  from candidate_ptr [OF b [unfolded s1]]
  have c: "T1 = T \<or> (preX T1 year rating = Some yearDecay \<and> preY T1 year rating = Some j)" .
  from Cons.IH [OF r [unfolded s1]]
  have d: "T' = T1 \<or> (\<exists>j\<in>set js. preX T' year rating = Some yearDecay \<and> preY T' year rating = Some j)" .
  from c d show ?case by auto
qed

lemma priorLoop_ptr:
  assumes "priorLoop v val repairs ratingsDecay limit year rating is (mn, T) = Inr (mn', T')"
  shows "T' = T
         \<or> (\<exists>i\<in>set is. \<exists>j. limit \<le> j \<and> j < i \<and> 0 \<le> year - ratingsDecay i rating
               \<and> preX T' year rating = Some (year - ratingsDecay i rating)
               \<and> preY T' year rating = Some j)"
  using assms
proof (induction "is" arbitrary: mn T)
  case Nil
  then show ?case by simp
next
  case (Cons i "is")
  from Cons.prems have dec: "decayAt ratingsDecay i rating = Inr (ratingsDecay i rating)"
    by (auto simp: decayAt_def bind_def split: if_splits)
  show ?case
  proof (cases "year - ratingsDecay i rating < 0")
    case True
    with Cons.prems dec show ?thesis by (simp add: bind_def)
  next
    case False
    with Cons.prems dec obtain s1 where
      f: "forM [limit..i - 1]
            (candidate v (val (year - ratingsDecay i rating)) repairs year rating i
               (year - ratingsDecay i rating)) ((Infinity, 0), (mn, T)) = Inr s1"
      and r: "(case s1 of (best, mnT') \<Rightarrow>
                 priorLoop v val repairs ratingsDecay limit year rating is mnT') = Inr (mn', T')"
      by (auto simp: bind_def split: sum.splits)
    obtain best1 mn1 T1 where s1: "s1 = (best1, (mn1, T1))" by (cases s1) auto
    from jloop_ptr [OF f [unfolded s1]]
    have c: "T1 = T \<or> (\<exists>j. limit \<le> j \<and> j < i
                \<and> preX T1 year rating = Some (year - ratingsDecay i rating)
                \<and> preY T1 year rating = Some j)" by auto
    from r s1 have "priorLoop v val repairs ratingsDecay limit year rating is (mn1, T1) = Inr (mn', T')"
      by simp
    from Cons.IH [OF this]
    have d: "T' = T1
         \<or> (\<exists>i\<in>set is. \<exists>j. limit \<le> j \<and> j < i \<and> 0 \<le> year - ratingsDecay i rating
               \<and> preX T' year rating = Some (year - ratingsDecay i rating)
               \<and> preY T' year rating = Some j)" .
    from c d False show ?thesis by auto
  qed
qed

lemma fillCell_ptr:
  assumes "fillCell v bridge ratingsDecay repairs costs impMat limit year rating T = Inr T'"
    and "(preX T' year rating, preY T' year rating) \<noteq> (preX T year rating, preY T year rating)"
  shows "\<exists>i j. firstPrior v rating \<le> i \<and> i \<le> 8 \<and> limit \<le> j \<and> j < i
            \<and> 0 \<le> year - ratingsDecay i rating
            \<and> preX T' year rating = Some (year - ratingsDecay i rating)
            \<and> preY T' year rating = Some j"
proof -
  from assms obtain mn1 T1 where
    p: "priorLoop v (valuate v bridge costs repairs impMat) repairs ratingsDecay limit year rating
          [firstPrior v rating..8] (Infinity, T) = Inr (mn1, T1)"
    and w: "writeM year rating mn1 T1 = Inr T'"
    by (auto simp: fillCell_def bind_def split: sum.splits if_splits)
  from w have e: "preX T' = preX T1" "preY T' = preY T1"
    by (auto simp: writeM_def split: if_splits)
  from priorLoop_ptr [OF p] e assms(2) show ?thesis by auto
qed

lemma value_patch6:
  "0 \<le> yd \<Longrightarrow> valuate v deck unitCosts [patch6] impMat456 yd patch6 6 = Inr 80"
  by (cases v)
     (simp_all add: sched_defs deck_def patch6_def patch7_def unitCosts_def impMat456_def)

lemma fillCell_env_100:
  "\<exists>T'. fillCell EnvVariant deck8 decay50 [patch7] unitCosts impMat456 7 100 7 sentinelTables = Inr T'
       \<and> cell T' 100 7 = (Fin 80, Some 50, Some 7, Some 5)"
proof -
  have u: "[firstPrior EnvVariant 7..8] = [8]" "[7..8 - 1] = [7::int]" by (simp_all add: upto_rec1)
  show ?thesis
    using value_patch7 [of 50 EnvVariant]
    by (simp add: fillCell_def u candidate_def tryRepair_def accept_def readM_def writeM_def
          readPre_def writePre_def decayAt_def inb_def upd2_def bind_def cell_def cle_def
          deck8_def deck_def decay50_def patch7_def sentinelTables_def)
qed

lemma fillCell_cost_5:
  "\<exists>T'. fillCell CostVariant deck decay50 [patch6] unitCosts impMat456 6 5 7 sentinelTables = Inr T'
       \<and> cell T' 5 7 = (Fin 80, Some 5, Some 6, Some 5)"
proof -
  have u: "[firstPrior CostVariant 7..8] = [7, 8]" "[6..7 - 1] = [6::int]" by (simp_all add: upto_rec1)
  show ?thesis
    using value_patch6 [of 5 CostVariant]
    by (simp add: fillCell_def u candidate_def tryRepair_def accept_def readM_def writeM_def
          readPre_def writePre_def decayAt_def inb_def upd2_def bind_def cell_def
          deck_def decay50_def patch6_def patch7_def sentinelTables_def)
qed

text \<open>
  Claim C6, as the code has it. For a cell (year, rating) that is not left to the
  boundary, \<open>findOptEnvSchedule\<close> runs the prior rating \<open>i\<close> from \<open>rating + 1\<close> to 8 and
  \<open>findOptCostSchedule\<close> runs it from \<open>rating\<close> to 8, each with \<open>j\<close> from \<open>limit\<close> to
  \<open>i - 1\<close>: whenever the fill of the cell changes its predecessor, the new predecessor
  is the year \<open>year - ratingsDecay[i][rating]\<close>, which is not negative, and the
  rating \<open>j\<close> of such an \<open>i\<close> and \<open>j\<close>.
\<close>

theorem prior_ratings:
  "(fillCell EnvVariant bridge ratingsDecay repairs costs impMat limit year rating T = Inr T'
      \<and> (preX T' year rating, preY T' year rating) \<noteq> (preX T year rating, preY T year rating)
    \<longrightarrow> (\<exists>i j. rating + 1 \<le> i \<and> i \<le> 8 \<and> limit \<le> j \<and> j < i
             \<and> 0 \<le> year - ratingsDecay i rating
             \<and> preX T' year rating = Some (year - ratingsDecay i rating)
             \<and> preY T' year rating = Some j))
   \<and> (fillCell CostVariant bridge ratingsDecay repairs costs impMat limit year rating T = Inr T'
      \<and> (preX T' year rating, preY T' year rating) \<noteq> (preX T year rating, preY T year rating)
    \<longrightarrow> (\<exists>i j. rating \<le> i \<and> i \<le> 8 \<and> limit \<le> j \<and> j < i
             \<and> 0 \<le> year - ratingsDecay i rating
             \<and> preX T' year rating = Some (year - ratingsDecay i rating)
             \<and> preY T' year rating = Some j))"
  using fillCell_ptr [of EnvVariant bridge ratingsDecay repairs costs impMat limit year rating T T']
    fillCell_ptr [of CostVariant bridge ratingsDecay repairs costs impMat limit year rating T T']
  by simp

theorem prior_ratings_witness:
  "cellAfter (fillCell EnvVariant deck8 decay50 [patch7] unitCosts impMat456 7 100 7 sentinelTables) 100 7
     = Some (Fin 80, Some 50, Some 7, Some 5)
   \<and> cellAfter (fillCell CostVariant deck decay50 [patch6] unitCosts impMat456 6 5 7 sentinelTables) 5 7
     = Some (Fin 80, Some 5, Some 6, Some 5)
   \<and> cell sentinelTables 100 7 = (Fin 0, Some (- 1), Some 0, Some 0)
   \<and> cell sentinelTables 5 7 = (Fin 0, Some (- 1), Some 0, Some 0)
   \<and> (\<exists>i j. 7 + 1 \<le> i \<and> i \<le> 8 \<and> 7 \<le> j \<and> j < i \<and> 0 \<le> 100 - decay50 i 7
          \<and> Some (50 :: int) = Some (100 - decay50 i 7) \<and> Some (7 :: int) = Some j)
   \<and> (\<exists>i j. 7 \<le> i \<and> i \<le> 8 \<and> 6 \<le> j \<and> j < i \<and> 0 \<le> 5 - decay50 i 7
          \<and> Some (5 :: int) = Some (5 - decay50 i 7) \<and> Some (6 :: int) = Some j)"
proof -
  from fillCell_env_100 obtain Te where
    e: "fillCell EnvVariant deck8 decay50 [patch7] unitCosts impMat456 7 100 7 sentinelTables = Inr Te"
      "cell Te 100 7 = (Fin 80, Some 50, Some 7, Some 5)" by blast
  from fillCell_cost_5 obtain Tc where
    c: "fillCell CostVariant deck decay50 [patch6] unitCosts impMat456 6 5 7 sentinelTables = Inr Tc"
      "cell Tc 5 7 = (Fin 80, Some 5, Some 6, Some 5)" by blast
  have s: "cell sentinelTables 100 7 = (Fin 0, Some (- 1), Some 0, Some 0)"
    "cell sentinelTables 5 7 = (Fin 0, Some (- 1), Some 0, Some 0)"
    by (simp_all add: cell_def sentinelTables_def)
  from e c s
    prior_ratings [of deck8 decay50 "[patch7]" unitCosts impMat456 7 100 7 sentinelTables Te]
    prior_ratings [of deck decay50 "[patch6]" unitCosts impMat456 6 5 7 sentinelTables Tc]
  show ?thesis by (simp add: cellAfter_def cell_def)
qed

text \<open>
  Claim C6 as stated has \<open>i\<close> above \<open>rating\<close> in both schedulers.
  \<open>findOptCostSchedule\<close> starts the loop at \<open>i = rating\<close>: with
  \<open>ratingsDecay[7][7] = 0\<close> and \<open>ratingsDecay[8][7] = 50\<close> the cell of year 5 and
  rating 7 elects repair 5 from the cell of year 5 and rating 6, which is the
  transition of \<open>i = 7\<close>; the one of \<open>i = 8\<close> lies before year 0.
\<close>

theorem prior_rating_equal_counterexample:
  "cellAfter (fillCell CostVariant deck decay50 [patch6] unitCosts impMat456 6 5 7 sentinelTables) 5 7
     = Some (Fin 80, Some 5, Some 6, Some 5)
   \<and> cell sentinelTables 5 7 = (Fin 0, Some (- 1), Some 0, Some 0)
   \<and> 5 - decay50 7 7 = 5 \<and> 5 - decay50 8 7 < 0"
proof -
  from fillCell_cost_5 obtain Tc where
    c: "fillCell CostVariant deck decay50 [patch6] unitCosts impMat456 6 5 7 sentinelTables = Inr Tc"
      "cell Tc 5 7 = (Fin 80, Some 5, Some 6, Some 5)" by blast
  then show ?thesis by (simp add: cellAfter_def cell_def sentinelTables_def decay50_def)
qed

subsection \<open>The reconstruction of the schedule\<close>

lemma writePre_other:
  "writePre x y px py pr T = Inr T' \<Longrightarrow> (a, b) \<noteq> (x, y) \<Longrightarrow> cell T' a b = cell T a b"
  by (auto simp: writePre_def upd2_def cell_def split: if_splits)

lemma writeM_other:
  "writeM x y m T = Inr T' \<Longrightarrow> (a, b) \<noteq> (x, y) \<Longrightarrow> cell T' a b = cell T a b"
  by (auto simp: writeM_def upd2_def cell_def split: if_splits)

lemma accept_other:
  assumes "accept v year rating yearDecay j repairId tempCost (mn, T) = Inr (mn', T')"
    and "(a, b) \<noteq> (year, rating)"
  shows "cell T' a b = cell T a b"
proof (cases "(mn', T') = (mn, T)")
  case True
  then show ?thesis by simp
next
  case False
  from accept_changes [OF assms(1) False]
  have "writePre year rating yearDecay j repairId T = Inr T'" by blast
  from writePre_other [OF this assms(2)] show ?thesis .
qed

lemma candidate_other:
  assumes "candidate v val repairs year rating i yearDecay j (best, (mn, T)) = Inr (best', (mn', T'))"
    and "(a, b) \<noteq> (year, rating)"
  shows "cell T' a b = cell T a b"
  using candidate_Inr [OF assms(1)] accept_other [OF _ assms(2)] by blast

lemma jloop_other:
  assumes "forM js (candidate v val repairs year rating i yearDecay) (best, (mn, T))
             = Inr (best', (mn', T'))"
    and "(a, b) \<noteq> (year, rating)"
  shows "cell T' a b = cell T a b"
  using assms(1)
proof (induction js arbitrary: best mn T)
  case Nil
  then show ?case by simp
next
  case (Cons j js)
  from Cons.prems obtain s1 where
    b: "candidate v val repairs year rating i yearDecay j (best, (mn, T)) = Inr s1"
    and r: "forM js (candidate v val repairs year rating i yearDecay) s1 = Inr (best', (mn', T'))"
    by (auto split: sum.splits)
  obtain best1 mn1 T1 where s1: "s1 = (best1, (mn1, T1))" by (cases s1) auto
  from candidate_other [OF b [unfolded s1] assms(2)] Cons.IH [OF r [unfolded s1]]
  show ?case by simp
qed

lemma priorLoop_other:
  assumes "priorLoop v val repairs ratingsDecay limit year rating is (mn, T) = Inr (mn', T')"
    and "(a, b) \<noteq> (year, rating)"
  shows "cell T' a b = cell T a b"
  using assms(1)
proof (induction "is" arbitrary: mn T)
  case Nil
  then show ?case by simp
next
  case (Cons i "is")
  from Cons.prems have dec: "decayAt ratingsDecay i rating = Inr (ratingsDecay i rating)"
    by (auto simp: decayAt_def bind_def split: if_splits)
  show ?case
  proof (cases "year - ratingsDecay i rating < 0")
    case True
    with Cons.prems dec show ?thesis by (simp add: bind_def)
  next
    case False
    with Cons.prems dec obtain s1 where
      f: "forM [limit..i - 1]
            (candidate v (val (year - ratingsDecay i rating)) repairs year rating i
               (year - ratingsDecay i rating)) ((Infinity, 0), (mn, T)) = Inr s1"
      and r: "(case s1 of (best, mnT') \<Rightarrow>
                 priorLoop v val repairs ratingsDecay limit year rating is mnT') = Inr (mn', T')"
      by (auto simp: bind_def split: sum.splits)
    obtain best1 mn1 T1 where s1: "s1 = (best1, (mn1, T1))" by (cases s1) auto
    from r s1 have "priorLoop v val repairs ratingsDecay limit year rating is (mn1, T1) = Inr (mn', T')"
      by simp
    from Cons.IH [OF this] jloop_other [OF f [unfolded s1] assms(2)]
    show ?thesis by simp
  qed
qed

lemma fillCell_other:
  assumes "fillCell v bridge ratingsDecay repairs costs impMat limit year rating T = Inr T'"
    and "(a, b) \<noteq> (year, rating)"
  shows "cell T' a b = cell T a b"
proof (cases "T' = T")
  case True
  then show ?thesis by simp
next
  case False
  with assms(1) obtain mn1 T1 where
    p: "priorLoop v (valuate v bridge costs repairs impMat) repairs ratingsDecay limit year rating
          [firstPrior v rating..8] (Infinity, T) = Inr (mn1, T1)"
    and w: "writeM year rating mn1 T1 = Inr T'"
    by (auto simp: fillCell_def bind_def split: sum.splits if_splits)
  from priorLoop_other [OF p assms(2)] writeM_other [OF w assms(2)] show ?thesis by simp
qed

lemmas cat_defs = categoryOne_def categoryTwo_def categoryThree_def categoryFour_def
  categoryFive_def categorySix_def categorySeven_def categoryEight_def categoryNine_def
  categoryTen_def categoryEleven_def

lemma value_patch6_cut:
  "valuate EnvVariant deckCut Map.empty [patch6, idle6] impMat456 yd patch6 6 = Inr 80"
  by (simp add: calEnvImpact_def scanCatalog_def matchRow_def cat_defs Let_def
        deckCut_def deck_def patch6_def patch7_def idle6_def)

lemma value_idle6:
  "0 \<le> yd \<Longrightarrow> valuate EnvVariant deckCut Map.empty [patch6, idle6] impMat456 yd idle6 6
     = Inr (4000 * power_int (9 / 10) yd)"
  by (simp add: calEnvImpact_def scanCatalog_def matchRow_def cat_defs Let_def impCoeffOf_def
        useCoeff_def growth_def bind_def impMat456_def
        deckCut_def deck_def patch6_def patch7_def idle6_def)

lemma try7_patch6:
  "tryRepair (valuate EnvVariant deckCut Map.empty [patch6, idle6] impMat456 yd) 7 6 patch6
     (Infinity, 0) = Inr (Fin 80, 5)"
  using value_patch6_cut [of yd]
  by (simp add: tryRepair_def bind_def patch6_def patch7_def del: valuate.simps)

lemma try7_idle6:
  assumes "0 \<le> yd"
  shows "tryRepair (valuate EnvVariant deckCut Map.empty [patch6, idle6] impMat456 yd) 7 6 idle6
           (Fin 80, 5)
         = Inr (if 4000 * power_int (9 / 10 :: real) yd < 80
                then (Fin (4000 * power_int (9 / 10) yd), 0) else (Fin 80, 5))"
  using value_idle6 [OF assms]
  by (simp add: tryRepair_def bind_def idle6_def del: valuate.simps)

lemma try8:
  "j = 6 \<or> j = 7 \<Longrightarrow> tryRepair val 8 j patch6 best = Inr best"
  "j = 6 \<or> j = 7 \<Longrightarrow> tryRepair val 8 j idle6 best = Inr best"
  by (cases best; auto simp: tryRepair_def patch6_def patch7_def idle6_def)+

lemma startRating_deckCut: "startRating deckCut = 7"
  by (simp add: deckCut_def deck_def)

lemma cut_upto:
  "[6..8] = [6, 7, 8::int]" "[firstPrior EnvVariant 6..8] = [7, 8]"
  "[firstPrior EnvVariant 7..8] = [8]" "[firstPrior EnvVariant 8..8] = []"
  "[6..7 - 1] = [6::int]" "[6..8 - 1] = [6, 7::int]"
  by (simp_all add: upto_rec1)

lemmas cut_defs = fillCell_def cut_upto candidate_def accept_def readM_def writeM_def readPre_def
  writePre_def decayAt_def inb_def upd2_def bind_def cell_def startRating_deckCut decayCut_def
  cle_def

lemma cell6_skip:
  "0 \<le> y \<Longrightarrow> y \<le> 49
     \<Longrightarrow> fillCell EnvVariant deckCut decayCut [patch6, idle6] Map.empty impMat456 6 y 6 T = Inr T"
  by (simp add: cut_defs)

lemma cell7_skip:
  "fillCell EnvVariant deckCut decayCut [patch6, idle6] Map.empty impMat456 6 0 7 T = Inr T"
  by (simp add: cut_defs)

lemma cell7_early:
  "1 \<le> y \<Longrightarrow> y \<le> 99
     \<Longrightarrow> \<exists>T'. fillCell EnvVariant deckCut decayCut [patch6, idle6] Map.empty impMat456 6 y 7 T = Inr T'"
  by (simp add: cut_defs)

lemma cell8_any:
  "0 \<le> y \<Longrightarrow> y \<le> 100
     \<Longrightarrow> \<exists>T'. fillCell EnvVariant deckCut decayCut [patch6, idle6] Map.empty impMat456 6 y 8 T = Inr T'"
  by (simp add: cut_defs)

lemma cell6_fill:
  assumes "50 \<le> y" "y \<le> 100" "M T (y - 49) 6 = Fin m" "0 \<le> m"
    "preX T (y - 49) 6 = Some p" "p \<noteq> y - 49"
  shows "\<exists>T'. fillCell EnvVariant deckCut decayCut [patch6, idle6] Map.empty impMat456 6 y 6 T = Inr T'
           \<and> cell T' y 6 = (if 4000 * power_int (9 / 10 :: real) (y - 49) < 80
                             then (Fin (m + 4000 * power_int (9 / 10) (y - 49)), Some (y - 49), Some 6, Some 0)
                             else (Fin (m + 80), Some (y - 49), Some 6, Some 5))"
proof -
  have pos: "0 < power_int (9 / 10 :: real) (y - 49)" by (rule zero_less_power_int) simp
  with assms(4) have nz: "m + 4000 * power_int (9 / 10 :: real) (y - 49) \<noteq> 0" "m + 80 \<noteq> 0"
    by (simp_all add: add_nonneg_pos pos_add_strict less_imp_neq [THEN not_sym])
  from assms(1) have y0: "0 \<le> y - 49" by simp
  from assms nz show ?thesis
    by (simp add: cut_defs try7_patch6 try7_idle6 [OF y0] del: valuate.simps)
qed

lemma cell7_final:
  assumes "M T 0 6 = Fin 0" "preX T 0 6 = Some (- 1)" "M T 0 7 = Fin 0" "preX T 0 7 = Some (- 1)"
  shows "\<exists>T'. fillCell EnvVariant deckCut decayCut [patch6, idle6] Map.empty impMat456 6 100 7 T = Inr T'
           \<and> cell T' 100 7 = (Infinity, Some 0, Some 7, Some 0)"
  using assms
  by (simp add: cut_defs try8 del: valuate.simps)


lemma cut_row:
  assumes "fillCell EnvVariant deckCut decayCut [patch6, idle6] Map.empty impMat456 6 y 6 T = Inr T1"
    and "fillCell EnvVariant deckCut decayCut [patch6, idle6] Map.empty impMat456 6 y 7 T1 = Inr T2"
    and "fillCell EnvVariant deckCut decayCut [patch6, idle6] Map.empty impMat456 6 y 8 T2 = Inr T3"
  shows "forM [6..8] (fillCell EnvVariant deckCut decayCut [patch6, idle6] Map.empty impMat456 6 y) T
           = Inr T3"
    and "\<And>a b. (a, b) \<noteq> (y, 6) \<Longrightarrow> cell T1 a b = cell T a b"
    and "\<And>a b. (a, b) \<noteq> (y, 7) \<Longrightarrow> cell T2 a b = cell T1 a b"
    and "\<And>a b. (a, b) \<noteq> (y, 8) \<Longrightarrow> cell T3 a b = cell T2 a b"
  using assms fillCell_other [OF assms(1)] fillCell_other [OF assms(2)] fillCell_other [OF assms(3)]
  by (simp_all add: cut_upto)

lemma cut_step_early:
  assumes y: "0 \<le> y" "y \<le> 49" and f: "cutAt y T"
  shows "\<exists>T'. forM [6..8] (fillCell EnvVariant deckCut decayCut [patch6, idle6] Map.empty impMat456 6 y) T
                 = Inr T'
           \<and> cutAt (y + 1) T'"
proof -
  from y have y100: "y \<le> 100" by simp
  have a: "fillCell EnvVariant deckCut decayCut [patch6, idle6] Map.empty impMat456 6 y 6 T = Inr T"
    by (rule cell6_skip [OF y])
  obtain T2 where
    b: "fillCell EnvVariant deckCut decayCut [patch6, idle6] Map.empty impMat456 6 y 7 T = Inr T2"
    and k: "cell T2 0 7 = cell T 0 7"
  proof (cases "y = 0")
    case True
    with cell7_skip [of T] that show ?thesis by simp
  next
    case False
    with y cell7_early [of y T] obtain T2 where
      b: "fillCell EnvVariant deckCut decayCut [patch6, idle6] Map.empty impMat456 6 y 7 T = Inr T2"
      by auto
    from fillCell_other [OF b, of 0 7] False have "cell T2 0 7 = cell T 0 7" by simp
    with b that show ?thesis by blast
  qed
  from cell8_any [OF y(1) y100, of T2] obtain T3 where
    c: "fillCell EnvVariant deckCut decayCut [patch6, idle6] Map.empty impMat456 6 y 8 T2 = Inr T3"
    by blast
  note r = cut_row [OF a b c]
  have six: "cell T3 x 6 = cell T x 6" for x using r(3) [of x 6] r(4) [of x 6] by simp
  have seven: "cell T3 0 7 = cell T 0 7" using r(4) [of 0 7] k by simp
  from f y six seven have "cutAt (y + 1) T3" by (simp add: cutAt_def)
  with r(1) show ?thesis by blast
qed

lemma cut_step_mid:
  assumes y: "50 \<le> y" "y \<le> 99" and f: "cutAt y T"
  shows "\<exists>T'. forM [6..8] (fillCell EnvVariant deckCut decayCut [patch6, idle6] Map.empty impMat456 6 y) T
                 = Inr T'
           \<and> cutAt (y + 1) T'"
proof -
  from y have y0: "0 \<le> y" "y \<le> 100" "1 \<le> y" by simp_all
  from y f obtain m p where mp: "M T (y - 49) 6 = Fin m" "0 \<le> m" "preX T (y - 49) 6 = Some p"
    "p \<noteq> y - 49" "y \<le> 51 \<longrightarrow> m = 0"
  proof (cases "y = 99")
    case True
    with f have "cell T 50 6 = (Fin 80, Some 1, Some 6, Some 5)" by (simp add: cutAt_def)
    with True that [of 80 1] show ?thesis by (simp add: cell_def)
  next
    case False
    with y f have "cell T (y - 49) 6 = (Fin 0, Some (- 1), Some 0, Some 0)" by (simp add: cutAt_def)
    with y that [of 0 "- 1"] show ?thesis by (simp add: cell_def)
  qed
  from cell6_fill [OF y(1) y0(2) mp(1-4)] obtain T1 where
    a: "fillCell EnvVariant deckCut decayCut [patch6, idle6] Map.empty impMat456 6 y 6 T = Inr T1"
    and v: "cell T1 y 6 = (if 4000 * power_int (9 / 10 :: real) (y - 49) < 80
                             then (Fin (m + 4000 * power_int (9 / 10) (y - 49)), Some (y - 49), Some 6, Some 0)
                             else (Fin (m + 80), Some (y - 49), Some 6, Some 5))"
    by blast
  from cell7_early [OF y0(3) y(2), of T1] obtain T2 where
    b: "fillCell EnvVariant deckCut decayCut [patch6, idle6] Map.empty impMat456 6 y 7 T1 = Inr T2"
    by blast
  from cell8_any [OF y0(1,2), of T2] obtain T3 where
    c: "fillCell EnvVariant deckCut decayCut [patch6, idle6] Map.empty impMat456 6 y 8 T2 = Inr T3"
    by blast
  note r = cut_row [OF a b c]
  have six: "cell T3 x 6 = cell T x 6" if "x \<noteq> y" for x
    using that r(2) [of x 6] r(3) [of x 6] r(4) [of x 6] by simp
  have six': "cell T3 y 6 = cell T1 y 6" using r(3) [of y 6] r(4) [of y 6] by simp
  have seven: "cell T3 0 7 = cell T 0 7"
    using y r(2) [of 0 7] r(3) [of 0 7] r(4) [of 0 7] by simp
  have v50: "cell T3 50 6 = (Fin 80, Some 1, Some 6, Some 5)" if "y = 50"
    using that six' v mp(5) by (simp add: power_divide)
  have v51: "cell T3 51 6 = (Fin 80, Some 2, Some 6, Some 5)" if "y = 51"
    using that six' v mp(5) by (simp add: power_divide)
  have "cutAt (y + 1) T3"
    unfolding cutAt_def
  proof (intro conjI allI impI)
    fix x :: int assume "0 \<le> x \<and> x \<le> 49"
    with y f six [of x] show "cell T3 x 6 = (Fin 0, Some (- 1), Some 0, Some 0)"
      by (simp add: cutAt_def)
  next
    from f seven show "cell T3 0 7 = (Fin 0, Some (- 1), Some 0, Some 0)" by (simp add: cutAt_def)
  next
    assume "50 < y + 1"
    show "cell T3 50 6 = (Fin 80, Some 1, Some 6, Some 5)"
    proof (cases "y = 50")
      case True
      then show ?thesis by (rule v50)
    next
      case False
      with y f six [of 50] show ?thesis by (simp add: cutAt_def)
    qed
  next
    assume "51 < y + 1"
    show "cell T3 51 6 = (Fin 80, Some 2, Some 6, Some 5)"
    proof (cases "y = 51")
      case True
      then show ?thesis by (rule v51)
    next
      case False
      with y \<open>51 < y + 1\<close> f six [of 51] show ?thesis by (simp add: cutAt_def)
    qed
  next
    assume "100 < y + 1"
    with y show "cell T3 100 6 = (Fin (80 + 4000 * (9 / 10) ^ 51), Some 51, Some 6, Some 0)" by simp
  next
    assume "100 < y + 1"
    with y show "cell T3 100 7 = (Infinity, Some 0, Some 7, Some 0)" by simp
  qed
  with r(1) show ?thesis by blast
qed

lemma cut_step_last:
  assumes f: "cutAt 100 T"
  shows "\<exists>T'. forM [6..8] (fillCell EnvVariant deckCut decayCut [patch6, idle6] Map.empty impMat456 6 100) T
                 = Inr T'
           \<and> cutAt (100 + 1) T'"
proof -
  from f have s: "cell T 51 6 = (Fin 80, Some 2, Some 6, Some 5)"
    "cell T 0 6 = (Fin 0, Some (- 1), Some 0, Some 0)" "cell T 0 7 = (Fin 0, Some (- 1), Some 0, Some 0)"
    by (simp_all add: cutAt_def)
  from s(1) have mp: "M T (100 - 49) 6 = Fin 80" "preX T (100 - 49) 6 = Some 2"
    by (simp_all add: cell_def)
  from cell6_fill [OF _ _ mp(1) _ mp(2)] obtain T1 where
    a: "fillCell EnvVariant deckCut decayCut [patch6, idle6] Map.empty impMat456 6 100 6 T = Inr T1"
    and v: "cell T1 100 6 = (Fin (80 + 4000 * (9 / 10) ^ 51), Some 51, Some 6, Some 0)"
    by (auto simp: power_divide)
  from fillCell_other [OF a, of 0 6] fillCell_other [OF a, of 0 7] s(2,3)
  have "M T1 0 6 = Fin 0" "preX T1 0 6 = Some (- 1)" "M T1 0 7 = Fin 0" "preX T1 0 7 = Some (- 1)"
    by (simp_all add: cell_def)
  from cell7_final [OF this] obtain T2 where
    b: "fillCell EnvVariant deckCut decayCut [patch6, idle6] Map.empty impMat456 6 100 7 T1 = Inr T2"
    and w: "cell T2 100 7 = (Infinity, Some 0, Some 7, Some 0)"
    by blast
  from cell8_any [of 100 T2] obtain T3 where
    c: "fillCell EnvVariant deckCut decayCut [patch6, idle6] Map.empty impMat456 6 100 8 T2 = Inr T3"
    by auto
  note r = cut_row [OF a b c]
  have six: "cell T3 x 6 = cell T x 6" if "x \<noteq> 100" for x
    using that r(2) [of x 6] r(3) [of x 6] r(4) [of x 6] by simp
  have six': "cell T3 100 6 = cell T1 100 6" using r(3) [of 100 6] r(4) [of 100 6] by simp
  have seven: "cell T3 0 7 = cell T 0 7"
    using r(2) [of 0 7] r(3) [of 0 7] r(4) [of 0 7] by simp
  have seven': "cell T3 100 7 = cell T2 100 7" using r(4) [of 100 7] by simp
  have "cutAt (100 + 1) T3"
    unfolding cutAt_def
  proof (intro conjI allI impI)
    fix x :: int assume "0 \<le> x \<and> x \<le> 49"
    with f six [of x] show "cell T3 x 6 = (Fin 0, Some (- 1), Some 0, Some 0)"
      by (simp add: cutAt_def)
  next
    from f seven show "cell T3 0 7 = (Fin 0, Some (- 1), Some 0, Some 0)" by (simp add: cutAt_def)
  next
    from f six [of 50] show "cell T3 50 6 = (Fin 80, Some 1, Some 6, Some 5)" by (simp add: cutAt_def)
  next
    from f six [of 51] show "cell T3 51 6 = (Fin 80, Some 2, Some 6, Some 5)" by (simp add: cutAt_def)
  next
    from six' v show "cell T3 100 6 = (Fin (80 + 4000 * (9 / 10) ^ 51), Some 51, Some 6, Some 0)"
      by simp
  next
    from seven' w show "cell T3 100 7 = (Infinity, Some 0, Some 7, Some 0)" by simp
  qed
  with r(1) show ?thesis by blast
qed

lemma cut_step:
  assumes y: "0 \<le> y" "y \<le> 100" and f: "cutAt y T"
  shows "\<exists>T'. forM [6..8] (fillCell EnvVariant deckCut decayCut [patch6, idle6] Map.empty impMat456 6 y) T
                 = Inr T'
           \<and> cutAt (y + 1) T'"
proof -
  from y consider "y \<le> 49" | "50 \<le> y" "y \<le> 99" | "y = 100" by linarith
  then show ?thesis
  proof cases
    case 1
    show ?thesis by (rule cut_step_early [OF y(1) 1 f])
  next
    case 2
    show ?thesis by (rule cut_step_mid [OF 2 f])
  next
    case 3
    show ?thesis unfolding 3 by (rule cut_step_last [OF f [unfolded 3]])
  qed
qed


lemma boundaryCut:
  "\<exists>T. boundary deckCut decayCut 6 initTables = Inr T \<and> cutAt 0 T"
proof -
  have "\<forall>year\<in>set [0..49]. 0 \<le> year \<and> year \<le> (100::int)" by auto
  from boundary_rows [OF this, of 6 initTables] obtain T where
    b: "forM [0..49] (\<lambda>year. forM (rev [1..8]) (boundaryCell 6 year)) initTables = Inr T"
    and c: "\<forall>x y. cell T x y = (if x \<in> set [0..49] \<and> 1 \<le> y \<and> y \<le> 8 then sentinel 6 y
                                  else cell initTables x y)" by blast
  have "[6..startRating deckCut - 1] = [6]" by (simp add: startRating_deckCut upto_rec1)
  with b have "boundary deckCut decayCut 6 initTables = Inr T"
    by (simp add: boundary_def decayAt_def bind_def startRating_deckCut decayCut_def)
  moreover from c have "cutAt 0 T" by (simp add: cutAt_def sentinel_def)
  ultimately show ?thesis by blast
qed

lemma fillCut:
  assumes "cutAt 0 T0"
  shows "\<exists>T. fill EnvVariant deckCut decayCut [patch6, idle6] Map.empty impMat456 6 T0 = Inr T
             \<and> cutAt 101 T"
proof -
  have "\<exists>T. forM [0..100]
               (\<lambda>year. forM [6..8]
                  (fillCell EnvVariant deckCut decayCut [patch6, idle6] Map.empty impMat456 6 year)) T0
             = Inr T \<and> cutAt (100 + 1) T"
    by (rule forM_upto_total [where P = cutAt, OF assms]) (use cut_step in auto)
  then show ?thesis by (simp add: fill_def)
qed

lemma runCut:
  "findOptEnvSchedule deckCut decayCut [patch6, idle6] impMat456 6 optSchedule
     = Some (Inr (Fin (80 + 4000 * (9 / 10) ^ 51), optSchedule,
                  [(6, Fin (80 + 4000 * (9 / 10) ^ 51), [(51, 0, 6), (2, 5, 6)]),
                   (7, Infinity, [(0, 0, 7)])]))"
proof -
  from boundaryCut obtain T0 where b: "boundary deckCut decayCut 6 initTables = Inr T0"
    and s0: "cutAt 0 T0" by blast
  from fillCut [OF s0] obtain T where
    f: "fill EnvVariant deckCut decayCut [patch6, idle6] Map.empty impMat456 6 T0 = Inr T"
    and s: "cutAt 101 T" by blast
  from s have c: "cell T 100 6 = (Fin (80 + 4000 * (9 / 10) ^ 51), Some 51, Some 6, Some 0)"
    "cell T 51 6 = (Fin 80, Some 2, Some 6, Some 5)"
    "cell T 2 6 = (Fin 0, Some (-1), Some 0, Some 0)"
    "cell T 100 7 = (Infinity, Some 0, Some 7, Some 0)"
    "cell T 0 7 = (Fin 0, Some (-1), Some 0, Some 0)"
    by (simp_all add: cutAt_def)
  have w6: "walkFile T 100 6 [] = Some (Inr [(51, 0, 6), (2, 5, 6)])"
    using c
    by (simp add: walkFile.simps [of T 100 6] walkFile.simps [of T 51 6] walkFile.simps [of T 2 6]
          readPre_def inb_def cell_def)
  have w7: "walkFile T 100 7 [] = Some (Inr [(0, 0, 7)])"
    using c
    by (simp add: walkFile.simps [of T 100 7] walkFile.simps [of T 0 7] readPre_def inb_def cell_def)
  have ws: "walkSchedule T 2000 100 6 [] = Some (Inr [])"
    using c by (simp add: walkSchedule.simps [of T _ 100 6] readPre_def inb_def cell_def)
  have "[6..7] = [6, 7::int]" by (simp add: upto_rec1)
  with b f w6 w7 ws c show ?thesis
    by (simp add: findOptEnvSchedule_def findOptSchedule_def reconstruct_def obind_def bind_def
          readM_def inb_def cell_def deckCut_def deck_def)
qed

lemma chain_cells:
  "readPre (preX chainTables) 2 6 = Inr (- 1)"
  "readPre (preX chainTables) 100 6 = Inr 51"
  "readPre (preRepair chainTables) 100 6 = Inr 0"
  "readPre (preX chainTables) 51 6 = Inr 2"
  "readPre (preRepair chainTables) 51 6 = Inr 5"
  "readPre (preY chainTables) 51 6 = Inr 6"
  by (simp_all add: readPre_def inb_def chainTables_def sentinelTables_def upd2_def)

text \<open>
  Claim C3, as the code has it. The walk that builds the schedule, the same in both
  schedulers, goes on only while the cell has a predecessor year above \<open>-1\<close> and an
  elected repair above 0. It ends at the sentinel and also at the first cell whose
  elected repair is 0 or less, and returns the entries collected so far; a cell with a
  predecessor and a positive repair adds its entry and moves to the predecessor. So
  the entries that \<open>findOptEnvSchedule\<close> and \<open>findOptCostSchedule\<close> append all have a
  positive \<open>repairID\<close>, and the repairs behind a cell of repair 0 are not reached.
\<close>

theorem walk_ends_at_no_repair:
  "(readPre (preX T) x y = Inr px \<and> px \<le> - 1
      \<longrightarrow> walkSchedule T startYr x y temp = Some (Inr temp))
   \<and> (readPre (preX T) x y = Inr px \<and> - 1 < px \<and> readPre (preRepair T) x y = Inr pr \<and> pr \<le> 0
      \<longrightarrow> walkSchedule T startYr x y temp = Some (Inr temp))
   \<and> (readPre (preX T) x y = Inr px \<and> - 1 < px \<and> readPre (preRepair T) x y = Inr pr \<and> 0 < pr
        \<and> readPre (preY T) x y = Inr py
      \<longrightarrow> walkSchedule T startYr x y temp
            = walkSchedule T startYr px py (temp @ [\<lparr>repairID = pr, repairYear = px + startYr\<rparr>]))
   \<and> (findOptEnvSchedule bridge ratingsDecay repairs impMat limit optSchedule
        = Some (Inr (c, sched, report))
      \<longrightarrow> (\<exists>new. sched = optSchedule @ new \<and> (\<forall>p\<in>set new. 0 < repairID p)))
   \<and> (findOptCostSchedule bridge ratingsDecay repairs costs impMat limit optSchedule
        = Some (Inr (c, sched, report))
      \<longrightarrow> (\<exists>new. sched = optSchedule @ new \<and> (\<forall>p\<in>set new. 0 < repairID p)))"
proof (intro conjI impI)
  assume "readPre (preX T) x y = Inr px \<and> px \<le> - 1"
  then show "walkSchedule T startYr x y temp = Some (Inr temp)"
    by (simp add: walkSchedule.simps [of T startYr x y temp])
next
  assume "readPre (preX T) x y = Inr px \<and> - 1 < px \<and> readPre (preRepair T) x y = Inr pr \<and> pr \<le> 0"
  then show "walkSchedule T startYr x y temp = Some (Inr temp)"
    by (simp add: walkSchedule.simps [of T startYr x y temp])
next
  assume "readPre (preX T) x y = Inr px \<and> - 1 < px \<and> readPre (preRepair T) x y = Inr pr \<and> 0 < pr
        \<and> readPre (preY T) x y = Inr py"
  then show "walkSchedule T startYr x y temp
            = walkSchedule T startYr px py (temp @ [\<lparr>repairID = pr, repairYear = px + startYr\<rparr>])"
    by (simp add: walkSchedule.simps [of T startYr x y temp])
next
  assume "findOptEnvSchedule bridge ratingsDecay repairs impMat limit optSchedule
            = Some (Inr (c, sched, report))"
  with findOptSchedule_appends [of EnvVariant bridge ratingsDecay repairs Map.empty impMat limit
          optSchedule c sched report]
  show "\<exists>new. sched = optSchedule @ new \<and> (\<forall>p\<in>set new. 0 < repairID p)"
    by (auto simp: findOptEnvSchedule_def)
next
  assume "findOptCostSchedule bridge ratingsDecay repairs costs impMat limit optSchedule
            = Some (Inr (c, sched, report))"
  with findOptSchedule_appends [of CostVariant bridge ratingsDecay repairs costs impMat limit
          optSchedule c sched report]
  show "\<exists>new. sched = optSchedule @ new \<and> (\<forall>p\<in>set new. 0 < repairID p)"
    by (auto simp: findOptCostSchedule_def)
qed

theorem walk_ends_at_no_repair_witness:
  "readPre (preX chainTables) 2 6 = Inr (- 1)
   \<and> walkSchedule chainTables 2000 2 6 [\<lparr>repairID = 5, repairYear = 2002\<rparr>]
       = Some (Inr [\<lparr>repairID = 5, repairYear = 2002\<rparr>])
   \<and> readPre (preX chainTables) 100 6 = Inr 51
   \<and> readPre (preRepair chainTables) 100 6 = Inr 0
   \<and> walkSchedule chainTables 2000 100 6 [] = Some (Inr [])
   \<and> readPre (preX chainTables) 51 6 = Inr 2
   \<and> readPre (preRepair chainTables) 51 6 = Inr 5
   \<and> readPre (preY chainTables) 51 6 = Inr 6
   \<and> walkSchedule chainTables 2000 51 6 []
       = walkSchedule chainTables 2000 2 6 [\<lparr>repairID = 5, repairYear = 2002\<rparr>]
   \<and> findOptEnvSchedule deck8 decay50 [patch7] impMat456 7 []
       = Some (Inr (Fin 80, [\<lparr>repairID = 5, repairYear = 2050\<rparr>], [(7, Fin 80, [(50, 5, 7)])]))
   \<and> findOptCostSchedule deck8 decay50 [patch7] unitCosts impMat456 7 []
       = Some (Inr (Fin 80, [\<lparr>repairID = 5, repairYear = 2050\<rparr>], [(7, Fin 80, [(50, 5, 7)])]))
   \<and> (\<exists>new. [\<lparr>repairID = 5, repairYear = 2050\<rparr>] = [] @ new \<and> (\<forall>p\<in>set new. 0 < repairID p))"
proof -
  have e: "findOptEnvSchedule deck8 decay50 [patch7] impMat456 7 []
       = Some (Inr (Fin 80, [\<lparr>repairID = 5, repairYear = 2050\<rparr>], [(7, Fin 80, [(50, 5, 7)])]))"
    using run50 [of EnvVariant "[]"]
      env_ignores_costs [of deck8 decay50 "[patch7]" Map.empty impMat456 7 _ unitCosts]
    by (simp add: findOptEnvSchedule_def)
  have c: "findOptCostSchedule deck8 decay50 [patch7] unitCosts impMat456 7 []
       = Some (Inr (Fin 80, [\<lparr>repairID = 5, repairYear = 2050\<rparr>], [(7, Fin 80, [(50, 5, 7)])]))"
    using run50 [of CostVariant "[]"] by (simp add: findOptCostSchedule_def)
  note w1 = walk_ends_at_no_repair [where T = chainTables and x = 2 and y = 6 and px = "- 1"
      and startYr = 2000 and temp = "[\<lparr>repairID = 5, repairYear = 2002\<rparr>]"]
  note w2 = walk_ends_at_no_repair [where T = chainTables and x = 100 and y = 6 and px = 51
      and pr = 0 and startYr = 2000 and temp = "[]"]
  note w3 = walk_ends_at_no_repair [where T = chainTables and x = 51 and y = 6 and px = 2
      and pr = 5 and py = 6 and startYr = 2000 and temp = "[]"]
  note w4 = walk_ends_at_no_repair [where bridge = deck8 and ratingsDecay = decay50
      and repairs = "[patch7]" and impMat = impMat456 and limit = 7 and optSchedule = "[]"
      and costs = unitCosts and c = "Fin 80" and sched = "[\<lparr>repairID = 5, repairYear = 2050\<rparr>]"
      and report = "[(7, Fin 80, [(50, 5, 7)])]"]
  from chain_cells e c w1 w2 w3 w4 show ?thesis by simp
qed

text \<open>
  Claim C3 as stated has the walk pass a cell of repair 0 and keep the repairs behind
  it. On this deck \<open>findOptEnvSchedule\<close> finds for the final rating 6 the chain written
  to the file, repair 0 in year 51 after repair 5 in year 2, and returns its cost, but
  the walk for the schedule ends at the cell of year 100, whose repair is 0: nothing
  is appended, and repair 5 of the year 2002 is not in the schedule.
\<close>

theorem walk_cut_by_no_repair_counterexample:
  "findOptEnvSchedule deckCut decayCut [patch6, idle6] impMat456 6 []
     = Some (Inr (Fin (80 + 4000 * (9 / 10) ^ 51), [],
                  [(6, Fin (80 + 4000 * (9 / 10) ^ 51), [(51, 0, 6), (2, 5, 6)]),
                   (7, Infinity, [(0, 0, 7)])]))"
  by (rule runCut)

end
